theory Spec2Isabelle
  imports Main
begin

section \<open>Python values and the collaborators of the client\<close>

text \<open>
  The development embeds the retry and polling loops of \<^verbatim>\<open>SharePointAccess\<close>
  (\<^verbatim>\<open>src/core/sharepoint_class.py\<close>): \<^verbatim>\<open>wait_for_file\<close>, \<^verbatim>\<open>update_range_data\<close>,
  \<^verbatim>\<open>refresh_pivot_table\<close> and \<^verbatim>\<open>refresh_individual_pivot_table\<close>.

  Every \<^verbatim>\<open>raise\<close> of the source, and every exception a called library function can
  raise on the values the source hands to it, is a value of \<open>error\<close>; a function that
  can raise returns \<open>error + 'a\<close>, with \<open>Inl\<close> for the raised exception.
  \<^item> \<open>Exception msg\<close> is \<^verbatim>\<open>raise Exception(msg)\<close>, the only exception the source raises
    itself.
  \<^item> \<open>ValueError\<close> is raised by \<^verbatim>\<open>int(s)\<close> on a string it rejects and by
    \<^verbatim>\<open>time.sleep\<close> on a negative length.
  \<^item> \<open>OverflowError\<close> is raised by \<^verbatim>\<open>time.sleep\<close> on a length that does not fit its
    clock.
  \<^item> \<open>AttributeError\<close> is raised by \<^verbatim>\<open>x.get(...)\<close> and \<^verbatim>\<open>x.replace(...)\<close> on a value
    that has no such method.
  \<^item> \<open>JSONDecodeError\<close> is raised by \<^verbatim>\<open>response.json()\<close> on a body that is not JSON.
  \<^item> \<open>RequestException msg\<close> stands for whatever the HTTP session raises instead of
    returning a response (connection refused, read timeout, ...).
\<close>

datatype error =
    Exception string
  | ValueError
  | OverflowError
  | AttributeError
  | JSONDecodeError
  | RequestException string

text \<open>A decoded JSON document; the items of an object are kept as an association list.\<close>

datatype json =
    JNull
  | JBool bool
  | JNum int
  | JStr string
  | JArr "json list"
  | JObj "(string \<times> json) list"

text \<open>
  What the source reads of a \<^verbatim>\<open>requests.Response\<close>: \<^verbatim>\<open>status_code\<close>, \<^verbatim>\<open>text\<close>,
  \<^verbatim>\<open>headers.get("Retry-After")\<close> (\<open>None\<close> when the header is missing) and \<^verbatim>\<open>json()\<close>
  (\<open>None\<close> when decoding raises). Header values reach Python decoded as Latin-1, one
  character per byte, which is what a \<open>string\<close> is here.
\<close>

record response =
  status_code :: int
  "text" :: string
  retry_after :: "string option"
  json_body :: "json option"

text \<open>
  \<^verbatim>\<open>Response.ok\<close> of the requests library: true unless \<^verbatim>\<open>raise_for_status()\<close> would raise,
  which it does for the statuses 400 to 599.
\<close>

definition ok :: "response \<Rightarrow> bool" where
  "ok r \<longleftrightarrow> \<not> (400 \<le> status_code r \<and> status_code r < 600)"

datatype http_method = GET | PATCH | POST

datatype request = Request http_method string "json option"

text \<open>
  The state the loops act on: the wall clock read by \<^verbatim>\<open>time.time()\<close> (in seconds), the
  requests issued through the session so far, and the lengths passed to \<^verbatim>\<open>time.sleep\<close>
  so far. Console output is not part of the state.
\<close>

record world =
  clock :: int
  requests :: "request list"
  sleeps :: "int list"

text \<open>
  The remote side is a script: the \<open>i\<close>-th request sent through the session (counting
  from 0) takes \<open>fst (env i)\<close> seconds and either raises or returns a response. The
  functions below are deterministic in everything else, so quantifying over all scripts
  covers every behaviour of the server and of the network.
\<close>

type_synonym session = "nat \<Rightarrow> nat \<times> (error + response)"

definition send :: "session \<Rightarrow> request \<Rightarrow> world \<Rightarrow> (error + response) \<times> world" where
  "send env rq w =
     (case env (length (requests w)) of
        (latency, outcome) \<Rightarrow>
          (outcome, w\<lparr>clock := clock w + int latency, requests := requests w @ [rq]\<rparr>))"

definition latency_at :: "session \<Rightarrow> nat \<Rightarrow> nat" where
  "latency_at env i = fst (env i)"

text \<open>The response to the \<open>i\<close>-th request, when there is one.\<close>

definition response_at :: "session \<Rightarrow> nat \<Rightarrow> response option" where
  "response_at env i = (case snd (env i) of Inl e \<Rightarrow> None | Inr r \<Rightarrow> Some r)"

text \<open>
  \<^verbatim>\<open>time.sleep(d)\<close> on an integer. CPython first converts the length to nanoseconds in a
  signed 64-bit integer and raises \<^verbatim>\<open>OverflowError\<close> when it does not fit, which is the
  case beyond 9223372036 seconds in either direction; then it raises \<^verbatim>\<open>ValueError\<close> for
  a negative length; otherwise it blocks for \<open>d\<close> seconds.
\<close>

definition sleep_max :: int where
  "sleep_max = 9223372036"

definition sleep :: "int \<Rightarrow> world \<Rightarrow> (error + unit) \<times> world" where
  "sleep d w =
     (if d < - sleep_max \<or> sleep_max < d then (Inl OverflowError, w)
      else if d < 0 then (Inl ValueError, w)
      else (Inr (), w\<lparr>clock := clock w + d, sleeps := sleeps w @ [d]\<rparr>))"

section \<open>Strings\<close>

definition quote_char :: string where
  "quote_char = [CHR 0x27]"

definition digit_chars :: string where
  "digit_chars = ''0123456789''"

fun str_nat :: "nat \<Rightarrow> string" where
  "str_nat n =
     (if n < 10 then [digit_chars ! n]
      else str_nat (n div 10) @ [digit_chars ! (n mod 10)])"

declare str_nat.simps [simp del]

text \<open>\<^verbatim>\<open>str(i)\<close>, as an f-string renders an integer.\<close>

definition str_int :: "int \<Rightarrow> string" where
  "str_int i = (if i < 0 then CHR ''-'' # str_nat (nat (- i)) else str_nat (nat i))"

text \<open>\<^verbatim>\<open>sub in s\<close> on strings.\<close>

fun py_in :: "string \<Rightarrow> string \<Rightarrow> bool" where
  "py_in sub [] \<longleftrightarrow> sub = []"
| "py_in sub (c # cs) \<longleftrightarrow> take (length sub) (c # cs) = sub \<or> py_in sub cs"

definition is_ascii_digit :: "char \<Rightarrow> bool" where
  "is_ascii_digit c \<longleftrightarrow> c \<in> set digit_chars"

text \<open>
  \<^verbatim>\<open>str.isdigit()\<close>: the string is not empty and every character has the Unicode property
  Numeric_Type Digit or Decimal. Among the Latin-1 characters these are the ten decimal
  digits and the superscripts two, three and one (code points B2, B3 and B9).
\<close>

definition is_digit_char :: "char \<Rightarrow> bool" where
  "is_digit_char c \<longleftrightarrow> is_ascii_digit c \<or> c \<in> {CHR 0xB2, CHR 0xB3, CHR 0xB9}"

definition isdigit :: "string \<Rightarrow> bool" where
  "isdigit s \<longleftrightarrow> s \<noteq> [] \<and> list_all is_digit_char s"

definition digit_val :: "char \<Rightarrow> int" where
  "digit_val c = int (length (takeWhile (\<lambda>d. d \<noteq> c) digit_chars))"

definition dec_value :: "string \<Rightarrow> int" where
  "dec_value s = foldl (\<lambda>acc c. 10 * acc + digit_val c) 0 s"

text \<open>
  The default of \<^verbatim>\<open>sys.get_int_max_str_digits()\<close>: \<^verbatim>\<open>int(s)\<close> raises \<^verbatim>\<open>ValueError\<close> on a
  longer digit string.
\<close>

definition int_max_str_digits :: nat where
  "int_max_str_digits = 4300"

text \<open>
  \<^verbatim>\<open>int(s)\<close> on the strings the source passes to it, which are those \<open>isdigit\<close> accepts:
  the decimal value of a string of decimal digits, \<^verbatim>\<open>ValueError\<close> when a superscript
  digit occurs in it or when it exceeds the length limit.
\<close>

definition py_int :: "string \<Rightarrow> error + int" where
  "py_int s =
     (if s \<noteq> [] \<and> list_all is_ascii_digit s \<and> length s \<le> int_max_str_digits
      then Inr (dec_value s) else Inl ValueError)"

section \<open>Loop bodies\<close>

text \<open>
  What one pass through a loop body does next: \<open>Leave r\<close> leaves the function with
  \<open>r\<close> (a \<^verbatim>\<open>return\<close> or a raised exception), \<open>Again s\<close> goes back to the loop test with
  the loop variables \<open>s\<close>.
\<close>

datatype ('r, 's) step = Leave 'r | Again 's

section \<open>\<^verbatim>\<open>update_range_data\<close>\<close>

definition update_endpoint :: "string \<Rightarrow> string \<Rightarrow> string \<Rightarrow> string \<Rightarrow> string \<Rightarrow> string" where
  "update_endpoint site_id drive_id new_item_id raw_data_sheet_name update_range =
     ''https://graph.microsoft.com/v1.0/sites/'' @ site_id @ ''/drives/'' @ drive_id
       @ ''/items/'' @ new_item_id @ ''/workbook/worksheets('' @ quote_char
       @ raw_data_sheet_name @ quote_char @ '')/range(address='' @ quote_char
       @ update_range @ quote_char @ '')''"

text \<open>
  \<^verbatim>\<open>int(retry_after) if retry_after and retry_after.isdigit() else (2 ** attempt)\<close>:
  a missing header and the empty string are both false in Python.
\<close>

definition wait_time :: "string option \<Rightarrow> nat \<Rightarrow> error + int" where
  "wait_time hint attempt =
     (case hint of
        None \<Rightarrow> Inr (2 ^ attempt)
      | Some h \<Rightarrow> if h \<noteq> [] \<and> isdigit h then py_int h else Inr (2 ^ attempt))"

text \<open>
  The test of the source on a response that is not ok:
  \<^verbatim>\<open>response.status_code == 429 or "MaxRequestDurationExceeded" in response.text\<close>.
\<close>

definition update_retryable :: "response \<Rightarrow> bool" where
  "update_retryable resp \<longleftrightarrow>
     status_code resp = 429 \<or> py_in ''MaxRequestDurationExceeded'' (text resp)"

definition update_failed_msg :: "int \<Rightarrow> int \<Rightarrow> string \<Rightarrow> string" where
  "update_failed_msg start end' body =
     ''Failed to update rows '' @ str_int (start + 1) @ '' to '' @ str_int end' @ '': '' @ body"

definition update_exhausted_msg :: "int \<Rightarrow> int \<Rightarrow> int \<Rightarrow> string" where
  "update_exhausted_msg start end' max_retries =
     ''Failed to update rows '' @ str_int (start + 1) @ '' to '' @ str_int end'
       @ '' after '' @ str_int max_retries @ '' attempts.''"

text \<open>One pass through the body of \<^verbatim>\<open>for attempt in range(max_retries)\<close>.\<close>

definition update_attempt ::
  "session \<Rightarrow> string \<Rightarrow> json \<Rightarrow> int \<Rightarrow> int \<Rightarrow> nat \<Rightarrow> world \<Rightarrow> (error + bool, unit) step \<times> world" where
  "update_attempt env endpoint updated_body start end' attempt w =
     (case send env (Request PATCH endpoint (Some updated_body)) w of
        (Inl e, w1) \<Rightarrow> (Leave (Inl e), w1)
      | (Inr resp, w1) \<Rightarrow>
          if ok resp then (Leave (Inr True), w1)
          else if update_retryable resp then
            (case wait_time (retry_after resp) attempt of
               Inl e \<Rightarrow> (Leave (Inl e), w1)
             | Inr t \<Rightarrow>
                 (case sleep t w1 of
                    (Inl e, w2) \<Rightarrow> (Leave (Inl e), w2)
                  | (Inr u, w2) \<Rightarrow> (Again (), w2)))
          else (Leave (Inl (Exception (update_failed_msg start end' (text resp)))), w1))"

function update_loop ::
  "session \<Rightarrow> string \<Rightarrow> json \<Rightarrow> int \<Rightarrow> int \<Rightarrow> int \<Rightarrow> nat \<Rightarrow> world \<Rightarrow> (error + bool) \<times> world" where
  "update_loop env endpoint updated_body start end' max_retries attempt w =
     (if int attempt < max_retries then
        (case update_attempt env endpoint updated_body start end' attempt w of
           (Leave r, w1) \<Rightarrow> (r, w1)
         | (Again u, w1) \<Rightarrow>
             update_loop env endpoint updated_body start end' max_retries (Suc attempt) w1)
      else (Inl (Exception (update_exhausted_msg start end' max_retries)), w))"
  by pat_completeness auto
termination
  by (relation "measure (\<lambda>(env, endpoint, updated_body, start, end', max_retries, attempt, w).
        nat (max_retries - int attempt))") auto

declare update_loop.simps [simp del]

definition update_range_data ::
  "session \<Rightarrow> string \<Rightarrow> string \<Rightarrow> string \<Rightarrow> string \<Rightarrow> string \<Rightarrow> json \<Rightarrow> int \<Rightarrow> int \<Rightarrow> int
     \<Rightarrow> world \<Rightarrow> (error + bool) \<times> world" where
  "update_range_data env site_id drive_id new_item_id raw_data_sheet_name update_range
       chunk_data start end' max_retries w =
     update_loop env
       (update_endpoint site_id drive_id new_item_id raw_data_sheet_name update_range)
       (JObj [(''values'', chunk_data)]) start end' max_retries 0 w"

section \<open>\<^verbatim>\<open>refresh_pivot_table\<close> and \<^verbatim>\<open>refresh_individual_pivot_table\<close>\<close>

text \<open>
  \<^verbatim>\<open>urllib.parse.quote\<close> is a library function; the sheet and pivot table names enter the
  model already encoded (\<open>encoded_sheet_name\<close>, \<open>encoded_worksheet_name\<close>,
  \<open>encoded_pivot_name\<close>).
\<close>

definition worksheet_url :: "string \<Rightarrow> string \<Rightarrow> string \<Rightarrow> string \<Rightarrow> string \<Rightarrow> string" where
  "worksheet_url api site_id drive_id item_id encoded_sheet_name =
     ''https://graph.microsoft.com/'' @ api @ ''/sites/'' @ site_id @ ''/drives/'' @ drive_id
       @ ''/items/'' @ item_id @ ''/workbook/worksheets('' @ quote_char
       @ encoded_sheet_name @ quote_char @ '')''"

definition refresh_pivot_endpoint :: "string \<Rightarrow> string \<Rightarrow> string \<Rightarrow> string \<Rightarrow> string" where
  "refresh_pivot_endpoint site_id drive_id item_id encoded_sheet_name =
     worksheet_url ''v1.0'' site_id drive_id item_id encoded_sheet_name
       @ ''/pivotTables/refreshAll''"

definition pivot_tables_endpoint :: "string \<Rightarrow> string \<Rightarrow> string \<Rightarrow> string \<Rightarrow> string" where
  "pivot_tables_endpoint site_id drive_id item_id encoded_sheet_name =
     worksheet_url ''v1.0'' site_id drive_id item_id encoded_sheet_name @ ''/pivotTables''"

definition individual_endpoint ::
  "string \<Rightarrow> string \<Rightarrow> string \<Rightarrow> string \<Rightarrow> string \<Rightarrow> string" where
  "individual_endpoint site_id drive_id item_id encoded_worksheet_name encoded_pivot_name =
     worksheet_url ''beta'' site_id drive_id item_id encoded_worksheet_name
       @ ''/pivotTables('' @ quote_char @ encoded_pivot_name @ quote_char @ '')/refresh''"

text \<open>
  The test of both refresh functions on a response that is not ok:
  \<^verbatim>\<open>"MaxRequestDurationExceeded" in response_text\<close>.
\<close>

definition refresh_retryable :: "response \<Rightarrow> bool" where
  "refresh_retryable resp \<longleftrightarrow> py_in ''MaxRequestDurationExceeded'' (text resp)"

definition refresh_failed_msg :: "string \<Rightarrow> string" where
  "refresh_failed_msg response_text = ''Failed to refresh Pivot Table: '' @ response_text"

text \<open>\<open>last_refresh_error\<close> starts as \<^verbatim>\<open>None\<close>, which an f-string renders as \<^verbatim>\<open>None\<close>.\<close>

definition refresh_exhausted_msg :: "string option \<Rightarrow> string" where
  "refresh_exhausted_msg last_refresh_error =
     ''Max retry attempts reached. The pivot table refresh could not be completed. Last error: ''
       @ (case last_refresh_error of None \<Rightarrow> ''None'' | Some t \<Rightarrow> t)"

text \<open>
  The diagnostic read of \<^verbatim>\<open>refresh_pivot_table\<close>, which the source writes out twice with
  the same text: a GET of the pivot table list, \<^verbatim>\<open>json()\<close> of the response when it is ok,
  and a print either way. Nothing around it catches an exception.
\<close>

definition diagnostic_read :: "session \<Rightarrow> string \<Rightarrow> world \<Rightarrow> (error + unit) \<times> world" where
  "diagnostic_read env endpoint w =
     (case send env (Request GET endpoint None) w of
        (Inl e, w1) \<Rightarrow> (Inl e, w1)
      | (Inr diagnostic_resp, w1) \<Rightarrow>
          if ok diagnostic_resp then
            (case json_body diagnostic_resp of
               None \<Rightarrow> (Inl JSONDecodeError, w1)
             | Some pivot_tables \<Rightarrow> (Inr (), w1))
          else (Inr (), w1))"

text \<open>
  One pass through the body of \<^verbatim>\<open>while retry_count < max_retries\<close> of
  \<^verbatim>\<open>refresh_pivot_table\<close>; the loop variables are \<open>retry_count\<close> and \<open>last_refresh_error\<close>.
\<close>

definition refresh_attempt ::
  "session \<Rightarrow> string \<Rightarrow> string \<Rightarrow> nat \<Rightarrow> world
     \<Rightarrow> (error + unit, nat \<times> string option) step \<times> world" where
  "refresh_attempt env refresh_endpoint diagnostic_endpoint retry_count w =
     (case send env (Request POST refresh_endpoint None) w of
        (Inl e, w1) \<Rightarrow> (Leave (Inl e), w1)
      | (Inr refresh_resp, w1) \<Rightarrow>
          if ok refresh_resp then (Leave (Inr ()), w1)
          else if refresh_retryable refresh_resp then
            (case sleep (2 ^ Suc retry_count) w1 of
               (Inl e, w2) \<Rightarrow> (Leave (Inl e), w2)
             | (Inr u, w2) \<Rightarrow> (Again (Suc retry_count, Some (text refresh_resp)), w2))
          else
            (case diagnostic_read env diagnostic_endpoint w1 of
               (Inl e, w2) \<Rightarrow> (Leave (Inl e), w2)
             | (Inr u, w2) \<Rightarrow>
                 (Leave (Inl (Exception (refresh_failed_msg (text refresh_resp)))), w2)))"

lemma refresh_attempt_Again:
  "refresh_attempt env refresh_endpoint diagnostic_endpoint retry_count w
     = (Again (retry_count', last'), w1) \<Longrightarrow> retry_count' = Suc retry_count"
  by (auto simp: refresh_attempt_def split: prod.splits sum.splits if_splits)

function refresh_loop ::
  "session \<Rightarrow> string \<Rightarrow> string \<Rightarrow> int \<Rightarrow> nat \<Rightarrow> string option \<Rightarrow> world
     \<Rightarrow> (error + unit) \<times> world" where
  "refresh_loop env refresh_endpoint diagnostic_endpoint max_retries retry_count
       last_refresh_error w =
     (if int retry_count < max_retries then
        (case refresh_attempt env refresh_endpoint diagnostic_endpoint retry_count w of
           (Leave r, w1) \<Rightarrow> (r, w1)
         | (Again (retry_count', last_refresh_error'), w1) \<Rightarrow>
             refresh_loop env refresh_endpoint diagnostic_endpoint max_retries retry_count'
               last_refresh_error' w1)
      else
        (case diagnostic_read env diagnostic_endpoint w of
           (Inl e, w1) \<Rightarrow> (Inl e, w1)
         | (Inr u, w1) \<Rightarrow> (Inl (Exception (refresh_exhausted_msg last_refresh_error)), w1)))"
  by pat_completeness auto
termination
proof (relation "measure (\<lambda>(env, refresh_endpoint, diagnostic_endpoint, max_retries,
          retry_count, last_refresh_error, w). nat (max_retries - int retry_count))")
  show "wf (measure (\<lambda>(env, refresh_endpoint, diagnostic_endpoint, max_retries,
          retry_count, last_refresh_error, w). nat (max_retries - int retry_count)))"
    by simp
next
  fix env :: session and refresh_endpoint diagnostic_endpoint :: string
    and max_retries :: int and retry_count :: nat and last_refresh_error :: "string option"
    and w w1 :: world and x :: "(error + unit, nat \<times> string option) step"
    and y :: "nat \<times> string option" and retry_count' :: nat and last' :: "string option"
  assume lt: "int retry_count < max_retries"
    and a: "(x, w1) = refresh_attempt env refresh_endpoint diagnostic_endpoint retry_count w"
    and x: "x = Again y" and y: "(retry_count', last') = y"
  from a x y have "retry_count' = Suc retry_count"
    using refresh_attempt_Again [of env refresh_endpoint diagnostic_endpoint retry_count w
        retry_count' last' w1] by simp
  with lt show "((env, refresh_endpoint, diagnostic_endpoint, max_retries, retry_count',
        last', w1),
      (env, refresh_endpoint, diagnostic_endpoint, max_retries, retry_count,
        last_refresh_error, w))
    \<in> measure (\<lambda>(env, refresh_endpoint, diagnostic_endpoint, max_retries,
          retry_count, last_refresh_error, w). nat (max_retries - int retry_count))"
    by simp
qed

declare refresh_loop.simps [simp del]

definition refresh_pivot_table ::
  "session \<Rightarrow> string \<Rightarrow> string \<Rightarrow> string \<Rightarrow> string \<Rightarrow> int \<Rightarrow> world \<Rightarrow> (error + unit) \<times> world" where
  "refresh_pivot_table env site_id drive_id item_id encoded_sheet_name max_retries w =
     refresh_loop env
       (refresh_pivot_endpoint site_id drive_id item_id encoded_sheet_name)
       (pivot_tables_endpoint site_id drive_id item_id encoded_sheet_name)
       max_retries 0 None w"

text \<open>The same loop in \<^verbatim>\<open>refresh_individual_pivot_table\<close>, which makes no diagnostic read.\<close>

definition individual_attempt ::
  "session \<Rightarrow> string \<Rightarrow> nat \<Rightarrow> world \<Rightarrow> (error + unit, nat \<times> string option) step \<times> world" where
  "individual_attempt env endpoint retry_count w =
     (case send env (Request POST endpoint None) w of
        (Inl e, w1) \<Rightarrow> (Leave (Inl e), w1)
      | (Inr refresh_resp, w1) \<Rightarrow>
          if ok refresh_resp then (Leave (Inr ()), w1)
          else if refresh_retryable refresh_resp then
            (case sleep (2 ^ Suc retry_count) w1 of
               (Inl e, w2) \<Rightarrow> (Leave (Inl e), w2)
             | (Inr u, w2) \<Rightarrow> (Again (Suc retry_count, Some (text refresh_resp)), w2))
          else (Leave (Inl (Exception (refresh_failed_msg (text refresh_resp)))), w1))"

lemma individual_attempt_Again:
  "individual_attempt env endpoint retry_count w = (Again (retry_count', last'), w1)
     \<Longrightarrow> retry_count' = Suc retry_count"
  by (auto simp: individual_attempt_def split: prod.splits sum.splits if_splits)

function individual_loop ::
  "session \<Rightarrow> string \<Rightarrow> int \<Rightarrow> nat \<Rightarrow> string option \<Rightarrow> world \<Rightarrow> (error + unit) \<times> world" where
  "individual_loop env endpoint max_retries retry_count last_refresh_error w =
     (if int retry_count < max_retries then
        (case individual_attempt env endpoint retry_count w of
           (Leave r, w1) \<Rightarrow> (r, w1)
         | (Again (retry_count', last_refresh_error'), w1) \<Rightarrow>
             individual_loop env endpoint max_retries retry_count' last_refresh_error' w1)
      else (Inl (Exception (refresh_exhausted_msg last_refresh_error)), w))"
  by pat_completeness auto
termination
proof (relation "measure (\<lambda>(env, endpoint, max_retries, retry_count, last_refresh_error, w).
          nat (max_retries - int retry_count))")
  show "wf (measure (\<lambda>(env, endpoint, max_retries, retry_count, last_refresh_error, w).
          nat (max_retries - int retry_count)))"
    by simp
next
  fix env :: session and endpoint :: string
    and max_retries :: int and retry_count :: nat and last_refresh_error :: "string option"
    and w w1 :: world and x :: "(error + unit, nat \<times> string option) step"
    and y :: "nat \<times> string option" and retry_count' :: nat and last' :: "string option"
  assume lt: "int retry_count < max_retries"
    and a: "(x, w1) = individual_attempt env endpoint retry_count w"
    and x: "x = Again y" and y: "(retry_count', last') = y"
  from a x y have "retry_count' = Suc retry_count"
    using individual_attempt_Again [of env endpoint retry_count w retry_count' last' w1]
    by simp
  with lt show "((env, endpoint, max_retries, retry_count', last', w1),
      (env, endpoint, max_retries, retry_count, last_refresh_error, w))
    \<in> measure (\<lambda>(env, endpoint, max_retries, retry_count, last_refresh_error, w).
          nat (max_retries - int retry_count))"
    by simp
qed

declare individual_loop.simps [simp del]

definition refresh_individual_pivot_table ::
  "session \<Rightarrow> string \<Rightarrow> string \<Rightarrow> string \<Rightarrow> string \<Rightarrow> string \<Rightarrow> int \<Rightarrow> world
     \<Rightarrow> (error + unit) \<times> world" where
  "refresh_individual_pivot_table env site_id drive_id item_id encoded_worksheet_name
       encoded_pivot_name max_retries w =
     individual_loop env
       (individual_endpoint site_id drive_id item_id encoded_worksheet_name encoded_pivot_name)
       max_retries 0 None w"

section \<open>\<^verbatim>\<open>wait_for_file\<close>\<close>

definition file_endpoint :: "string \<Rightarrow> string \<Rightarrow> string \<Rightarrow> string \<Rightarrow> string" where
  "file_endpoint site_id drive_id folder_path file_name =
     ''https://graph.microsoft.com/v1.0/sites/'' @ site_id @ ''/drives/'' @ drive_id
       @ ''/root:/'' @ folder_path @ ''/'' @ file_name"

definition timeout_msg :: "string \<Rightarrow> string \<Rightarrow> string" where
  "timeout_msg file_name folder_path =
     ''Timeout waiting for file '' @ quote_char @ file_name @ quote_char @ '' in ''
       @ quote_char @ folder_path @ quote_char @ ''.''"

text \<open>\<^verbatim>\<open>items.get(key)\<close> of a dictionary: \<^verbatim>\<open>None\<close> for a missing key.\<close>

definition dict_get :: "(string \<times> json) list \<Rightarrow> string \<Rightarrow> json" where
  "dict_get items k = (case map_of items k of None \<Rightarrow> JNull | Some v \<Rightarrow> v)"

text \<open>\<^verbatim>\<open>s.replace("T", " ").replace("Z", "")\<close>.\<close>

definition strip_TZ :: "string \<Rightarrow> string" where
  "strip_TZ s =
     filter (\<lambda>c. c \<noteq> CHR ''Z'') (map (\<lambda>c. if c = CHR ''T'' then CHR '' '' else c) s)"

text \<open>
  The dictionary \<^verbatim>\<open>wait_for_file\<close> returns, built from \<open>data = response.json()\<close>. A
  \<open>data\<close> that is not an object has no \<^verbatim>\<open>get\<close>, and a \<^verbatim>\<open>createdDateTime\<close> that is there
  but is not a string has no \<^verbatim>\<open>replace\<close>: both raise \<^verbatim>\<open>AttributeError\<close>.
\<close>

definition file_metadata :: "json \<Rightarrow> error + (string \<times> json) list" where
  "file_metadata data =
     (case data of
        JObj items \<Rightarrow>
          (case (case map_of items ''createdDateTime'' of None \<Rightarrow> JStr [] | Some v \<Rightarrow> v) of
             JStr created \<Rightarrow>
               Inr [(''id'', dict_get items ''id''),
                    (''name'', dict_get items ''name''),
                    (''createdDateTime'', JStr (strip_TZ created)),
                    (''webUrl'', dict_get items ''webUrl'')]
           | _ \<Rightarrow> Inl AttributeError)
      | _ \<Rightarrow> Inl AttributeError)"

text \<open>
  The \<^verbatim>\<open>try\<close> block of the loop body, on the outcome of its request: \<open>Some d\<close> when it
  reaches its \<^verbatim>\<open>return\<close> with the dictionary \<open>d\<close>; \<open>None\<close> when the response is not ok
  or when \<^verbatim>\<open>except Exception\<close> catches what the request, \<^verbatim>\<open>json()\<close> or the construction
  of the dictionary raised.
\<close>

definition lookup_result :: "error + response \<Rightarrow> (string \<times> json) list option" where
  "lookup_result outcome =
     (case outcome of
        Inl e \<Rightarrow> None
      | Inr resp \<Rightarrow>
          if ok resp then
            (case json_body resp of
               None \<Rightarrow> None
             | Some data \<Rightarrow>
                 (case file_metadata data of
                    Inl e \<Rightarrow> None
                  | Inr d \<Rightarrow> Some d))
          else None)"

definition try_lookup ::
  "session \<Rightarrow> string \<Rightarrow> world \<Rightarrow> (string \<times> json) list option \<times> world" where
  "try_lookup env endpoint w =
     (case send env (Request GET endpoint None) w of
        (outcome, w1) \<Rightarrow> (lookup_result outcome, w1))"

text \<open>
  \<^verbatim>\<open>while time.time() - start_time < timeout\<close>. Nothing bounds the number of passes when
  the clock does not advance, so the loop is a partial function: \<open>None\<close> is a run that
  never leaves the loop.
\<close>

partial_function (option) wait_loop ::
  "session \<Rightarrow> string \<Rightarrow> string \<Rightarrow> int \<Rightarrow> int \<Rightarrow> int \<Rightarrow> world
     \<Rightarrow> ((error + (string \<times> json) list) \<times> world) option" where
  "wait_loop env endpoint msg start_time timeout poll_interval w =
     (if clock w - start_time < timeout then
        (case try_lookup env endpoint w of
           (Some d, w1) \<Rightarrow> Some (Inr d, w1)
         | (None, w1) \<Rightarrow>
             (case sleep poll_interval w1 of
                (Inl e, w2) \<Rightarrow> Some (Inl e, w2)
              | (Inr u, w2) \<Rightarrow>
                  wait_loop env endpoint msg start_time timeout poll_interval w2))
      else Some (Inl (Exception msg), w))"

definition wait_for_file ::
  "session \<Rightarrow> string \<Rightarrow> string \<Rightarrow> string \<Rightarrow> string \<Rightarrow> int \<Rightarrow> int \<Rightarrow> world
     \<Rightarrow> ((error + (string \<times> json) list) \<times> world) option" where
  "wait_for_file env site_id drive_id folder_path file_name timeout poll_interval w =
     wait_loop env (file_endpoint site_id drive_id folder_path file_name)
       (timeout_msg file_name folder_path) (clock w) timeout poll_interval w"

section \<open>The chunked updater\<close>

text \<open>
  Modelled from the spec: \<^verbatim>\<open>update_chunks\<close>, the loop that applies \<^verbatim>\<open>update_range_data\<close>
  to the chunks of a job, is not in the source file (only the per-chunk function is).
  Following section 4.3 of the specification: a chunk descriptor carries
  \<open>start_index\<close>, \<open>end_index\<close> and the rows \<open>payload\<close> (and here also the address of its
  range, which \<^verbatim>\<open>update_range_data\<close> takes); the chunks are processed strictly in order,
  each one by its own call of the retrying function; the result is one boolean per
  chunk; an exception raised for a chunk ends the job there.
\<close>

record chunk_descriptor =
  start_index :: int
  end_index :: int
  payload :: json
  address :: string



section \<open>Scripts and conditions used in the statements\<close>

text \<open>
  The wait the retry rule prescribes after the 0-indexed attempt \<open>k\<close>, written from the
  rule and not from the source: the exponential value \<open>2 ^ k\<close> when the hint is missing
  or is not a number (for \<^verbatim>\<open>update_range_data\<close>: when \<open>isdigit\<close> rejects it, which
  includes the empty string), and the number the hint spells when it is a string of at
  most \<open>int_max_str_digits\<close> decimal digits. Nothing is prescribed for the hints that
  \<open>isdigit\<close> accepts and \<^verbatim>\<open>int()\<close> rejects.
\<close>

definition specified_wait :: "string option \<Rightarrow> nat \<Rightarrow> int option" where
  "specified_wait hint k =
     (case hint of
        None \<Rightarrow> Some (2 ^ k)
      | Some h \<Rightarrow>
          if \<not> isdigit h then Some (2 ^ k)
          else if list_all is_ascii_digit h \<and> length h \<le> int_max_str_digits
          then Some (dec_value h)
          else None)"

text \<open>
  The requests number \<open>n\<close> to \<open>n + k - 1\<close> are the first \<open>k\<close> attempts of
  \<^verbatim>\<open>update_range_data\<close> and each fails retryably: its response is not ok, has status 429
  or a body containing \<^verbatim>\<open>MaxRequestDurationExceeded\<close>, and the wait prescribed after
  it, \<open>t i\<close>, is a length \<^verbatim>\<open>time.sleep\<close> accepts.
\<close>

definition retried_update :: "session \<Rightarrow> nat \<Rightarrow> nat \<Rightarrow> (nat \<Rightarrow> int) \<Rightarrow> bool" where
  "retried_update env n k t \<longleftrightarrow>
     (\<forall>i<k. \<exists>r. response_at env (n + i) = Some r \<and> \<not> ok r
        \<and> (status_code r = 429 \<or> py_in ''MaxRequestDurationExceeded'' (text r))
        \<and> specified_wait (retry_after r) i = Some (t i) \<and> t i \<le> sleep_max)"

text \<open>
  The requests number \<open>n\<close> to \<open>n + k - 1\<close> are the first \<open>k\<close> attempts of a refresh
  function and each fails retryably: its response is not ok and its body contains
  \<^verbatim>\<open>MaxRequestDurationExceeded\<close>.
\<close>

definition retried_refresh :: "session \<Rightarrow> nat \<Rightarrow> nat \<Rightarrow> bool" where
  "retried_refresh env n k \<longleftrightarrow>
     (\<forall>i<k. \<exists>r. response_at env (n + i) = Some r \<and> \<not> ok r
        \<and> py_in ''MaxRequestDurationExceeded'' (text r))"

text \<open>
  The diagnostic read gets a response and, when the response is ok, a body that
  \<^verbatim>\<open>json()\<close> decodes.
\<close>

definition diagnostic_returns :: "error + response \<Rightarrow> bool" where
  "diagnostic_returns outcome \<longleftrightarrow>
     (case outcome of Inl e \<Rightarrow> False | Inr dr \<Rightarrow> ok dr \<longrightarrow> json_body dr \<noteq> None)"

text \<open>
  The value of \<open>last_refresh_error\<close> after \<open>k\<close> retried attempts whose requests started
  at number \<open>n\<close>: the text of the last response, or the initial value when \<open>k = 0\<close>.
\<close>

definition last_error_after :: "session \<Rightarrow> nat \<Rightarrow> nat \<Rightarrow> string option \<Rightarrow> string option" where
  "last_error_after env n k prev =
     (if k = 0 then prev else map_option text (response_at env (n + k - 1)))"

definition initial_world :: world where
  "initial_world = \<lparr>clock = 0, requests = [], sleeps = []\<rparr>"

definition timed_out_response :: response where
  "timed_out_response =
     \<lparr>status_code = 503, text = ''MaxRequestDurationExceeded'', retry_after = None,
      json_body = None\<rparr>"

text \<open>Every request is answered by a 503 whose body names the exceeded duration.\<close>

definition always_timed_out :: session where
  "always_timed_out i = (0, Inr timed_out_response)"

text \<open>The same, except that request number 1 raises instead of returning.\<close>

definition dropped_second_request :: session where
  "dropped_second_request i =
     (if i = 1 then (0, Inl (RequestException ''connection reset''))
      else (0, Inr timed_out_response))"

text \<open>A 429 without the duration marker in its body, carrying the given \<^verbatim>\<open>Retry-After\<close>.\<close>

definition throttled_response :: "string option \<Rightarrow> response" where
  "throttled_response hint =
     \<lparr>status_code = 429, text = ''Too Many Requests'', retry_after = hint, json_body = None\<rparr>"

text \<open>Always throttled: first with the hint 7, then with a hint that is no number, then with none.\<close>

definition hinted_session :: session where
  "hinted_session i =
     (0, Inr (throttled_response
        (if i = 0 then Some ''7'' else if i = 1 then Some ''soon'' else None)))"

text \<open>A duration-exceeded failure that asks for a retry after zero seconds.\<close>

definition zero_hint_response :: response where
  "zero_hint_response =
     \<lparr>status_code = 504, text = ''MaxRequestDurationExceeded'', retry_after = Some ''0'',
      json_body = None\<rparr>"

definition zero_hint_session :: session where
  "zero_hint_session i = (0, Inr zero_hint_response)"

text \<open>A 404: neither status 429 nor a duration-exceeded body.\<close>

definition not_found_response :: response where
  "not_found_response =
     \<lparr>status_code = 404, text = ''itemNotFound'', retry_after = None, json_body = None\<rparr>"

definition not_found_session :: session where
  "not_found_session i = (0, Inr not_found_response)"

text \<open>A 404 for the first request; every later request raises.\<close>

definition not_found_then_dropped :: session where
  "not_found_then_dropped i =
     (if i = 0 then (0, Inr not_found_response)
      else (0, Inl (RequestException ''connection reset'')))"










text \<open>Thirty-four duration-exceeded failures, then a 404 for every later request.\<close>

definition long_outage :: session where
  "long_outage i = (0, Inr (if i < 34 then timed_out_response else not_found_response))"

section \<open>Single steps and the loop of \<^verbatim>\<open>update_range_data\<close>\<close>

lemma send_eq:
  "send env rq w =
     (snd (env (length (requests w))),
      w\<lparr>clock := clock w + int (latency_at env (length (requests w))),
        requests := requests w @ [rq]\<rparr>)"
  by (simp add: send_def latency_at_def split: prod.split)

lemma response_at_Some: "response_at env i = Some r \<longleftrightarrow> snd (env i) = Inr r"
  by (simp add: response_at_def split: sum.splits)

lemma power_sleepable: "n \<le> 33 \<Longrightarrow> (2::int) ^ n \<le> sleep_max"
proof -
  assume "n \<le> 33"
  then have "(2::int) ^ n \<le> 2 ^ 33" by (intro power_increasing) simp_all
  then show ?thesis by (simp add: sleep_max_def)
qed

lemma power_overflow: "33 < n \<Longrightarrow> sleep_max < (2::int) ^ n"
proof -
  assume "33 < n"
  then have "(2::int) ^ 34 \<le> 2 ^ n" by (intro power_increasing) simp_all
  then show ?thesis by (simp add: sleep_max_def)
qed

lemma sleep_accepted:
  "0 \<le> d \<Longrightarrow> d \<le> sleep_max \<Longrightarrow>
   sleep d w = (Inr (), w\<lparr>clock := clock w + d, sleeps := sleeps w @ [d]\<rparr>)"
  by (simp add: sleep_def sleep_max_def)

lemma sleep_overflow: "sleep_max < d \<Longrightarrow> sleep d w = (Inl OverflowError, w)"
  by (simp add: sleep_def)

lemma sleep_effect:
  "sleep d w = (Inr u, w') \<Longrightarrow>
   w' = w\<lparr>clock := clock w + d, sleeps := sleeps w @ [d]\<rparr> \<and> 0 \<le> d \<and> d \<le> sleep_max"
  by (auto simp: sleep_def split: if_splits)

lemma sleep_raises: "sleep d w = (Inl e, w') \<Longrightarrow> w' = w"
  by (auto simp: sleep_def split: if_splits)

lemma dec_value_nonneg: "0 \<le> dec_value s"
proof -
  have "0 \<le> acc \<Longrightarrow> 0 \<le> foldl (\<lambda>acc c. 10 * acc + digit_val c) acc s" for acc
    by (induction s arbitrary: acc) (simp_all add: digit_val_def)
  then show ?thesis by (simp add: dec_value_def)
qed

lemma specified_wait_sound:
  assumes "specified_wait hint k = Some t"
  shows "wait_time hint k = Inr t" and "0 \<le> t"
proof -
  show "wait_time hint k = Inr t"
  proof (cases hint)
    case None
    with assms show ?thesis by (simp add: specified_wait_def wait_time_def)
  next
    case (Some h)
    show ?thesis
    proof (cases "isdigit h")
      case False
      with assms Some show ?thesis by (simp add: specified_wait_def wait_time_def)
    next
      case True
      then have "h \<noteq> []" by (simp add: isdigit_def)
      with assms Some True show ?thesis
        by (simp add: specified_wait_def wait_time_def py_int_def split: if_splits)
    qed
  qed
  show "0 \<le> t"
    using assms dec_value_nonneg
    by (auto simp: specified_wait_def split: option.splits if_splits)
qed

lemma update_attempt_retry:
  assumes "response_at env (length (requests w)) = Some r" and "\<not> ok r"
    and "update_retryable r" and "wait_time (retry_after r) attempt = Inr t"
    and "0 \<le> t" and "t \<le> sleep_max"
  shows "update_attempt env endpoint updated_body start end' attempt w =
    (Again (),
     w\<lparr>clock := clock w + int (latency_at env (length (requests w))) + t,
       requests := requests w @ [Request PATCH endpoint (Some updated_body)],
       sleeps := sleeps w @ [t]\<rparr>)"
  using assms
  by (simp add: update_attempt_def send_eq sleep_accepted response_at_Some)


lemma update_attempt_effect:
  assumes "update_attempt env endpoint updated_body start end' attempt w = (st, w1)"
  shows "requests w1 = requests w @ [Request PATCH endpoint (Some updated_body)]"
    and "(\<exists>res. st = Leave res) \<Longrightarrow> sleeps w1 = sleeps w"
    and "(\<exists>u. st = Again u) \<Longrightarrow>
      \<exists>r t. response_at env (length (requests w)) = Some r \<and> \<not> ok r \<and> update_retryable r
        \<and> wait_time (retry_after r) attempt = Inr t \<and> sleeps w1 = sleeps w @ [t]"
  using assms
  by (auto simp: update_attempt_def send_eq sleep_def response_at_def
      split: sum.splits if_splits)

lemma update_loop_Again:
  "int attempt < max_retries \<Longrightarrow>
   update_attempt env endpoint updated_body start end' attempt w = (Again u, w1) \<Longrightarrow>
   update_loop env endpoint updated_body start end' max_retries attempt w =
     update_loop env endpoint updated_body start end' max_retries (Suc attempt) w1"
  by (simp add: update_loop.simps)

lemma update_loop_Leave:
  "int attempt < max_retries \<Longrightarrow>
   update_attempt env endpoint updated_body start end' attempt w = (Leave res, w1) \<Longrightarrow>
   update_loop env endpoint updated_body start end' max_retries attempt w = (res, w1)"
  by (simp add: update_loop.simps)

lemma update_loop_done:
  "\<not> int attempt < max_retries \<Longrightarrow>
   update_loop env endpoint updated_body start end' max_retries attempt w =
     (Inl (Exception (update_exhausted_msg start end' max_retries)), w)"
  by (simp add: update_loop.simps)

lemma sum_shift:
  "(\<Sum>i<Suc k. f i) = f 0 + (\<Sum>i<k. f (Suc i))" for f :: "nat \<Rightarrow> int"
  using sum.lessThan_Suc_shift [of f k] by (simp only: o_def)

text \<open>
  \<open>k\<close> retried attempts, starting at attempt \<open>a\<close> in the world \<open>w\<close>: the run goes on
  as the loop at attempt \<open>a + k\<close>, in a world where exactly the \<open>k\<close> requests have been
  sent and exactly the \<open>k\<close> waits have been slept.
\<close>

lemma update_loop_retries:
  assumes "\<forall>i<k. \<exists>r. response_at env (length (requests w) + i) = Some r \<and> \<not> ok r
              \<and> update_retryable r \<and> wait_time (retry_after r) (a + i) = Inr (t (a + i))
              \<and> 0 \<le> t (a + i) \<and> t (a + i) \<le> sleep_max"
    and "int (a + k) \<le> max_retries"
  shows "\<exists>w'. update_loop env endpoint updated_body start end' max_retries a w =
             update_loop env endpoint updated_body start end' max_retries (a + k) w'
           \<and> requests w' =
               requests w @ replicate k (Request PATCH endpoint (Some updated_body))
           \<and> sleeps w' = sleeps w @ map t [a..<a + k]
           \<and> clock w' = clock w
               + (\<Sum>i<k. int (latency_at env (length (requests w) + i)) + t (a + i))"
  using assms
proof (induction k arbitrary: a w)
  case 0
  show ?case by (rule exI [of _ w]) simp
next
  case (Suc k)
  let ?rq = "Request PATCH endpoint (Some updated_body)"
  let ?n = "length (requests w)"
  let ?loop = "update_loop env endpoint updated_body start end' max_retries"
  from Suc.prems(1) obtain r where r: "response_at env ?n = Some r"
    "\<not> ok r" "update_retryable r" "wait_time (retry_after r) a = Inr (t a)"
    "0 \<le> t a" "t a \<le> sleep_max"
    by force
  define w1 where "w1 = w\<lparr>clock := clock w + int (latency_at env ?n) + t a,
       requests := requests w @ [?rq], sleeps := sleeps w @ [t a]\<rparr>"
  have step: "update_attempt env endpoint updated_body start end' a w = (Again (), w1)"
    unfolding w1_def using r by (rule update_attempt_retry)
  have lt: "int a < max_retries" using Suc.prems(2) by simp
  have rq1: "requests w1 = requests w @ [?rq]" by (simp add: w1_def)
  have "\<forall>i<k. \<exists>r. response_at env (length (requests w1) + i) = Some r \<and> \<not> ok r
              \<and> update_retryable r
              \<and> wait_time (retry_after r) (Suc a + i) = Inr (t (Suc a + i))
              \<and> 0 \<le> t (Suc a + i) \<and> t (Suc a + i) \<le> sleep_max"
  proof (intro allI impI)
    fix i assume "i < k"
    then have "Suc i < Suc k" by simp
    with Suc.prems(1) have "\<exists>r. response_at env (?n + Suc i) = Some r \<and> \<not> ok r
              \<and> update_retryable r \<and> wait_time (retry_after r) (a + Suc i) = Inr (t (a + Suc i))
              \<and> 0 \<le> t (a + Suc i) \<and> t (a + Suc i) \<le> sleep_max" by blast
    then show "\<exists>r. response_at env (length (requests w1) + i) = Some r \<and> \<not> ok r
              \<and> update_retryable r
              \<and> wait_time (retry_after r) (Suc a + i) = Inr (t (Suc a + i))
              \<and> 0 \<le> t (Suc a + i) \<and> t (Suc a + i) \<le> sleep_max"
      by (simp add: rq1)
  qed
  moreover have "int (Suc a + k) \<le> max_retries" using Suc.prems(2) by simp
  ultimately obtain w' where w':
    "?loop (Suc a) w1 = ?loop (Suc a + k) w'"
    "requests w' = requests w1 @ replicate k ?rq"
    "sleeps w' = sleeps w1 @ map t [Suc a..<Suc a + k]"
    "clock w' = clock w1
       + (\<Sum>i<k. int (latency_at env (length (requests w1) + i)) + t (Suc a + i))"
    using Suc.IH [of w1 "Suc a"] by blast
  from update_loop_Again [OF lt step] w'(1)
  have "?loop a w = ?loop (a + Suc k) w'" by simp
  moreover have "requests w' = requests w @ replicate (Suc k) ?rq"
    using w'(2) rq1 by (simp add: replicate_app_Cons_same)
  moreover have "sleeps w' = sleeps w @ map t [a..<a + Suc k]"
  proof -
    have "[a..<a + Suc k] = a # [Suc a..<Suc a + k]" by (simp add: upt_conv_Cons)
    with w'(3) show ?thesis by (simp add: w1_def)
  qed
  moreover have "clock w' = clock w
               + (\<Sum>i<Suc k. int (latency_at env (?n + i)) + t (a + i))"
  proof -
    have "(\<Sum>i<Suc k. int (latency_at env (?n + i)) + t (a + i))
        = (int (latency_at env ?n) + t a)
          + (\<Sum>i<k. int (latency_at env (?n + Suc i)) + t (a + Suc i))"
      using sum_shift [of "\<lambda>i. int (latency_at env (?n + i)) + t (a + i)" k] by simp
    with w'(4) show ?thesis by (simp add: w1_def)
  qed
  ultimately show ?case by blast
qed

lemma retried_updateD:
  assumes "retried_update env n k t"
  shows "\<forall>i<k. \<exists>r. response_at env (n + i) = Some r \<and> \<not> ok r
              \<and> update_retryable r \<and> wait_time (retry_after r) (0 + i) = Inr (t (0 + i))
              \<and> 0 \<le> t (0 + i) \<and> t (0 + i) \<le> sleep_max"
proof (intro allI impI)
  fix i assume "i < k"
  with assms obtain r where r: "response_at env (n + i) = Some r" "\<not> ok r"
    "status_code r = 429 \<or> py_in ''MaxRequestDurationExceeded'' (text r)"
    "specified_wait (retry_after r) i = Some (t i)" "t i \<le> sleep_max"
    unfolding retried_update_def by blast
  from specified_wait_sound [OF r(4)] r
  show "\<exists>r. response_at env (n + i) = Some r \<and> \<not> ok r
              \<and> update_retryable r \<and> wait_time (retry_after r) (0 + i) = Inr (t (0 + i))
              \<and> 0 \<le> t (0 + i) \<and> t (0 + i) \<le> sleep_max"
    by (auto simp: update_retryable_def)
qed

lemma retried_update_mono: "retried_update env n k t \<Longrightarrow> j \<le> k \<Longrightarrow> retried_update env n j t"
  by (simp add: retried_update_def)

text \<open>The same, from the start of the loop, in the terms of the statements.\<close>

lemma update_loop_retried:
  assumes "retried_update env (length (requests w)) k t" and "int k \<le> max_retries"
  shows "\<exists>w'. update_loop env endpoint updated_body start end' max_retries 0 w =
             update_loop env endpoint updated_body start end' max_retries k w'
           \<and> requests w' =
               requests w @ replicate k (Request PATCH endpoint (Some updated_body))
           \<and> sleeps w' = sleeps w @ map t [0..<k]
           \<and> clock w' = clock w
               + (\<Sum>i<k. int (latency_at env (length (requests w) + i)) + t i)"
  using update_loop_retries [OF retried_updateD [OF assms(1)], of max_retries endpoint
      updated_body start end'] assms(2)
  by simp

lemma update_exhaustion:
  assumes "retried_update env (length (requests w)) N t"
  shows "fst (update_loop env endpoint updated_body start end' (int N) 0 w) =
           Inl (Exception (update_exhausted_msg start end' (int N)))"
    and "requests (snd (update_loop env endpoint updated_body start end' (int N) 0 w)) =
           requests w @ replicate N (Request PATCH endpoint (Some updated_body))"
    and "sleeps (snd (update_loop env endpoint updated_body start end' (int N) 0 w)) =
           sleeps w @ map t [0..<N]"
proof -
  from update_loop_retried [OF assms, of "int N" endpoint updated_body start end']
  obtain w' where w': "update_loop env endpoint updated_body start end' (int N) 0 w =
             update_loop env endpoint updated_body start end' (int N) N w'"
     "requests w' = requests w @ replicate N (Request PATCH endpoint (Some updated_body))"
     "sleeps w' = sleeps w @ map t [0..<N]"
    by auto
  have "update_loop env endpoint updated_body start end' (int N) N w' =
     (Inl (Exception (update_exhausted_msg start end' (int N))), w')"
    by (rule update_loop_done) simp
  with w' show "fst (update_loop env endpoint updated_body start end' (int N) 0 w) =
           Inl (Exception (update_exhausted_msg start end' (int N)))"
    and "requests (snd (update_loop env endpoint updated_body start end' (int N) 0 w)) =
           requests w @ replicate N (Request PATCH endpoint (Some updated_body))"
    and "sleeps (snd (update_loop env endpoint updated_body start end' (int N) 0 w)) =
           sleeps w @ map t [0..<N]"
    by simp_all
qed

section \<open>The loop of \<^verbatim>\<open>refresh_pivot_table\<close>\<close>

lemma diagnostic_read_requests:
  "requests (snd (diagnostic_read env endpoint w)) = requests w @ [Request GET endpoint None]"
  by (simp add: diagnostic_read_def send_eq split: sum.splits option.splits)

lemma diagnostic_read_sleeps:
  "sleeps (snd (diagnostic_read env endpoint w)) = sleeps w"
  by (simp add: diagnostic_read_def send_eq split: sum.splits option.splits)

lemma diagnostic_read_appends:
  "diagnostic_read env endpoint w = (res, w') \<Longrightarrow>
   requests w' = requests w @ [Request GET endpoint None]"
  using diagnostic_read_requests [of env endpoint w] by simp

lemma diagnostic_read_keeps_sleeps:
  "diagnostic_read env endpoint w = (res, w') \<Longrightarrow> sleeps w' = sleeps w"
  using diagnostic_read_sleeps [of env endpoint w] by simp

lemma diagnostic_read_returns:
  "diagnostic_returns (snd (env (length (requests w)))) \<Longrightarrow>
   fst (diagnostic_read env endpoint w) = Inr ()"
  by (auto simp: diagnostic_returns_def diagnostic_read_def send_eq
      split: sum.splits option.splits)

lemma diagnostic_read_raises:
  "snd (env (length (requests w))) = Inl e \<Longrightarrow> fst (diagnostic_read env endpoint w) = Inl e"
  by (simp add: diagnostic_read_def send_eq)

lemma diagnostic_read_undecodable:
  "snd (env (length (requests w))) = Inr dr \<Longrightarrow> ok dr \<Longrightarrow> json_body dr = None \<Longrightarrow>
   fst (diagnostic_read env endpoint w) = Inl JSONDecodeError"
  by (simp add: diagnostic_read_def send_eq)

lemma refresh_attempt_retry:
  assumes "response_at env (length (requests w)) = Some r" and "\<not> ok r"
    and "refresh_retryable r" and "Suc retry_count \<le> 33"
  shows "refresh_attempt env refresh_endpoint diagnostic_endpoint retry_count w =
    (Again (Suc retry_count, Some (text r)),
     w\<lparr>clock := clock w + int (latency_at env (length (requests w))) + 2 ^ Suc retry_count,
       requests := requests w @ [Request POST refresh_endpoint None],
       sleeps := sleeps w @ [2 ^ Suc retry_count]\<rparr>)"
proof -
  have "(2::int) ^ Suc retry_count \<le> sleep_max" using assms(4) by (rule power_sleepable)
  moreover have "(0::int) \<le> 2 ^ Suc retry_count" by simp
  ultimately have "sleep (2 ^ Suc retry_count) w1 =
      (Inr (), w1\<lparr>clock := clock w1 + 2 ^ Suc retry_count,
         sleeps := sleeps w1 @ [2 ^ Suc retry_count]\<rparr>)" for w1
    by (intro sleep_accepted)
  with assms(1-3) show ?thesis
    by (simp add: refresh_attempt_def send_eq response_at_Some)
qed

lemma refresh_attempt_overflow:
  assumes "response_at env (length (requests w)) = Some r" and "\<not> ok r"
    and "refresh_retryable r" and "33 \<le> retry_count"
  shows "refresh_attempt env refresh_endpoint diagnostic_endpoint retry_count w =
    (Leave (Inl OverflowError),
     w\<lparr>clock := clock w + int (latency_at env (length (requests w))),
       requests := requests w @ [Request POST refresh_endpoint None]\<rparr>)"
proof -
  have "sleep_max < (2::int) ^ Suc retry_count" using assms(4) by (intro power_overflow) simp
  then have "sleep (2 ^ Suc retry_count) w1 = (Inl OverflowError, w1)" for w1
    by (rule sleep_overflow)
  with assms(1-3) show ?thesis
    by (simp add: refresh_attempt_def send_eq response_at_Some)
qed

lemma refresh_attempt_fatal:
  assumes "response_at env (length (requests w)) = Some r" and "\<not> ok r"
    and "\<not> refresh_retryable r"
  shows "refresh_attempt env refresh_endpoint diagnostic_endpoint retry_count w =
    (case diagnostic_read env diagnostic_endpoint
            (w\<lparr>clock := clock w + int (latency_at env (length (requests w))),
               requests := requests w @ [Request POST refresh_endpoint None]\<rparr>) of
       (Inl e, w2) \<Rightarrow> (Leave (Inl e), w2)
     | (Inr u, w2) \<Rightarrow> (Leave (Inl (Exception (refresh_failed_msg (text r)))), w2))"
  using assms by (simp add: refresh_attempt_def send_eq response_at_Some)

lemma refresh_attempt_sleeps:
  assumes "refresh_attempt env refresh_endpoint diagnostic_endpoint retry_count w = (st, w1)"
  shows "(\<exists>res. st = Leave res) \<Longrightarrow> sleeps w1 = sleeps w"
    and "(\<exists>s. st = Again s) \<Longrightarrow> sleeps w1 = sleeps w @ [2 ^ Suc retry_count]"
  using assms
  by (auto simp: refresh_attempt_def send_eq sleep_def dest: diagnostic_read_keeps_sleeps
      split: sum.splits if_splits prod.splits)


lemma refresh_loop_Again:
  "int retry_count < max_retries \<Longrightarrow>
   refresh_attempt env refresh_endpoint diagnostic_endpoint retry_count w
     = (Again (retry_count', prev'), w1) \<Longrightarrow>
   refresh_loop env refresh_endpoint diagnostic_endpoint max_retries retry_count prev w =
     refresh_loop env refresh_endpoint diagnostic_endpoint max_retries retry_count' prev' w1"
  by (simp add: refresh_loop.simps)

lemma refresh_loop_Leave:
  "int retry_count < max_retries \<Longrightarrow>
   refresh_attempt env refresh_endpoint diagnostic_endpoint retry_count w = (Leave res, w1) \<Longrightarrow>
   refresh_loop env refresh_endpoint diagnostic_endpoint max_retries retry_count prev w =
     (res, w1)"
  by (simp add: refresh_loop.simps)

lemma refresh_loop_done:
  "\<not> int retry_count < max_retries \<Longrightarrow>
   refresh_loop env refresh_endpoint diagnostic_endpoint max_retries retry_count prev w =
     (case diagnostic_read env diagnostic_endpoint w of
        (Inl e, w1) \<Rightarrow> (Inl e, w1)
      | (Inr u, w1) \<Rightarrow> (Inl (Exception (refresh_exhausted_msg prev)), w1))"
  by (simp add: refresh_loop.simps)

lemma retried_refreshD:
  "retried_refresh env n k \<Longrightarrow>
   \<forall>i<k. \<exists>r. response_at env (n + i) = Some r \<and> \<not> ok r \<and> refresh_retryable r"
  by (simp add: retried_refresh_def refresh_retryable_def)

lemma retried_refresh_mono: "retried_refresh env n k \<Longrightarrow> j \<le> k \<Longrightarrow> retried_refresh env n j"
  by (simp add: retried_refresh_def)

lemma retried_refresh_shift:
  "retried_refresh env n (Suc k) \<Longrightarrow> retried_refresh env (Suc n) k"
  unfolding retried_refresh_def
proof (intro allI impI)
  fix i assume a: "\<forall>i<Suc k. \<exists>r. response_at env (n + i) = Some r \<and> \<not> ok r
        \<and> py_in ''MaxRequestDurationExceeded'' (text r)" and "i < k"
  then have "Suc i < Suc k" by simp
  with a have "\<exists>r. response_at env (n + Suc i) = Some r \<and> \<not> ok r
        \<and> py_in ''MaxRequestDurationExceeded'' (text r)" by blast
  then show "\<exists>r. response_at env (Suc n + i) = Some r \<and> \<not> ok r
        \<and> py_in ''MaxRequestDurationExceeded'' (text r)" by simp
qed

lemma retried_refresh_first:
  "retried_refresh env n (Suc k) \<Longrightarrow>
   \<exists>r. response_at env n = Some r \<and> \<not> ok r \<and> refresh_retryable r"
  unfolding retried_refresh_def refresh_retryable_def by force

text \<open>
  \<open>k\<close> retried attempts of \<^verbatim>\<open>refresh_pivot_table\<close>, starting with \<open>retry_count = c\<close> in
  the world \<open>w\<close>.
\<close>

lemma refresh_loop_retries:
  assumes "retried_refresh env (length (requests w)) k"
    and "int (c + k) \<le> max_retries" and "c + k \<le> 33"
  shows "\<exists>w'. refresh_loop env refresh_endpoint diagnostic_endpoint max_retries c prev w =
             refresh_loop env refresh_endpoint diagnostic_endpoint max_retries
               (c + k) (last_error_after env (length (requests w)) k prev) w'
           \<and> requests w' = requests w @ replicate k (Request POST refresh_endpoint None)
           \<and> sleeps w' = sleeps w @ map (\<lambda>j. 2 ^ Suc j) [c..<c + k]
           \<and> clock w' = clock w
               + (\<Sum>i<k. int (latency_at env (length (requests w) + i)) + 2 ^ Suc (c + i))"
  using assms
proof (induction k arbitrary: c prev w)
  case 0
  show ?case by (rule exI [of _ w]) (simp add: last_error_after_def)
next
  case (Suc k)
  let ?rq = "Request POST refresh_endpoint None"
  let ?n = "length (requests w)"
  let ?loop = "refresh_loop env refresh_endpoint diagnostic_endpoint max_retries"
  from retried_refresh_first [OF Suc.prems(1)] obtain r where r: "response_at env ?n = Some r"
    "\<not> ok r" "refresh_retryable r"
    by blast
  define w1 where "w1 = w\<lparr>clock := clock w + int (latency_at env ?n) + 2 ^ Suc c,
       requests := requests w @ [?rq], sleeps := sleeps w @ [2 ^ Suc c]\<rparr>"
  have c: "Suc c \<le> 33" using Suc.prems(3) by simp
  have step: "refresh_attempt env refresh_endpoint diagnostic_endpoint c w =
      (Again (Suc c, Some (text r)), w1)"
    unfolding w1_def using r c by (rule refresh_attempt_retry)
  have lt: "int c < max_retries" using Suc.prems(2) by simp
  have rq1: "requests w1 = requests w @ [?rq]" by (simp add: w1_def)
  have "retried_refresh env (length (requests w1)) k"
    using retried_refresh_shift [OF Suc.prems(1)] by (simp add: rq1)
  moreover have "int (Suc c + k) \<le> max_retries" using Suc.prems(2) by simp
  moreover have "Suc c + k \<le> 33" using Suc.prems(3) by simp
  ultimately obtain w' where w':
    "?loop (Suc c) (Some (text r)) w1 =
       ?loop (Suc c + k) (last_error_after env (length (requests w1)) k (Some (text r))) w'"
    "requests w' = requests w1 @ replicate k ?rq"
    "sleeps w' = sleeps w1 @ map (\<lambda>j. 2 ^ Suc j) [Suc c..<Suc c + k]"
    "clock w' = clock w1
       + (\<Sum>i<k. int (latency_at env (length (requests w1) + i)) + 2 ^ Suc (Suc c + i))"
    using Suc.IH [of w1 "Suc c" "Some (text r)"] by blast
  have prev: "last_error_after env (length (requests w1)) k (Some (text r)) =
      last_error_after env ?n (Suc k) prev"
    using r(1) by (cases k) (simp_all add: last_error_after_def rq1)
  from refresh_loop_Again [OF lt step] w'(1) prev
  have "?loop c prev w = ?loop (c + Suc k) (last_error_after env ?n (Suc k) prev) w'"
    by simp
  moreover have "requests w' = requests w @ replicate (Suc k) ?rq"
    using w'(2) rq1 by (simp add: replicate_app_Cons_same)
  moreover have "sleeps w' = sleeps w @ map (\<lambda>j. 2 ^ Suc j) [c..<c + Suc k]"
  proof -
    have "[c..<c + Suc k] = c # [Suc c..<Suc c + k]" by (simp add: upt_conv_Cons)
    with w'(3) show ?thesis by (simp add: w1_def)
  qed
  moreover have "clock w' = clock w
               + (\<Sum>i<Suc k. int (latency_at env (?n + i)) + 2 ^ Suc (c + i))"
  proof -
    have "(\<Sum>i<Suc k. int (latency_at env (?n + i)) + 2 ^ Suc (c + i))
        = (int (latency_at env ?n) + 2 ^ Suc c)
          + (\<Sum>i<k. int (latency_at env (?n + Suc i)) + 2 ^ Suc (c + Suc i))"
      using sum_shift [of "\<lambda>i. int (latency_at env (?n + i)) + 2 ^ Suc (c + i)" k] by simp
    with w'(4) show ?thesis by (simp add: w1_def rq1)
  qed
  ultimately show ?case by blast
qed

lemma refresh_exhaustion:
  assumes "retried_refresh env (length (requests w)) N" and "N \<le> 33"
    and "diagnostic_returns (snd (env (length (requests w) + N)))"
  shows "fst (refresh_loop env refresh_endpoint diagnostic_endpoint (int N) 0 None w) =
           Inl (Exception (refresh_exhausted_msg
             (last_error_after env (length (requests w)) N None)))"
    and "requests (snd (refresh_loop env refresh_endpoint diagnostic_endpoint (int N) 0 None w)) =
           requests w @ replicate N (Request POST refresh_endpoint None)
             @ [Request GET diagnostic_endpoint None]"
    and "sleeps (snd (refresh_loop env refresh_endpoint diagnostic_endpoint (int N) 0 None w)) =
           sleeps w @ map (\<lambda>j. 2 ^ Suc j) [0..<N]"
proof -
  let ?prev = "last_error_after env (length (requests w)) N None"
  let ?loop = "refresh_loop env refresh_endpoint diagnostic_endpoint (int N)"
  from refresh_loop_retries [OF assms(1), of 0 "int N" refresh_endpoint diagnostic_endpoint None]
    assms(2)
  obtain w' where w': "?loop 0 None w = ?loop N ?prev w'"
     "requests w' = requests w @ replicate N (Request POST refresh_endpoint None)"
     "sleeps w' = sleeps w @ map (\<lambda>j. 2 ^ Suc j) [0..<N]"
    by auto
  have fin: "?loop N ?prev w' =
     (case diagnostic_read env diagnostic_endpoint w' of
        (Inl e, w1) \<Rightarrow> (Inl e, w1)
      | (Inr u, w1) \<Rightarrow> (Inl (Exception (refresh_exhausted_msg ?prev)), w1))"
    by (rule refresh_loop_done) simp
  obtain res w2 where d: "diagnostic_read env diagnostic_endpoint w' = (res, w2)" by fastforce
  from assms(3) w'(2) have "fst (diagnostic_read env diagnostic_endpoint w') = Inr ()"
    by (intro diagnostic_read_returns) simp
  with d have res: "res = Inr ()" by simp
  from w'(1) fin d res have run: "?loop 0 None w =
      (Inl (Exception (refresh_exhausted_msg ?prev)), w2)" by simp
  show "fst (?loop 0 None w) = Inl (Exception (refresh_exhausted_msg ?prev))"
    using run by simp
  show "requests (snd (?loop 0 None w)) =
           requests w @ replicate N (Request POST refresh_endpoint None)
             @ [Request GET diagnostic_endpoint None]"
    using run diagnostic_read_appends [OF d] w'(2) by simp
  show "sleeps (snd (?loop 0 None w)) = sleeps w @ map (\<lambda>j. 2 ^ Suc j) [0..<N]"
    using run diagnostic_read_keeps_sleeps [OF d] w'(3) by simp
qed

section \<open>The loop of \<^verbatim>\<open>refresh_individual_pivot_table\<close>\<close>

lemma individual_attempt_retry:
  assumes "response_at env (length (requests w)) = Some r" and "\<not> ok r"
    and "refresh_retryable r" and "Suc retry_count \<le> 33"
  shows "individual_attempt env endpoint retry_count w =
    (Again (Suc retry_count, Some (text r)),
     w\<lparr>clock := clock w + int (latency_at env (length (requests w))) + 2 ^ Suc retry_count,
       requests := requests w @ [Request POST endpoint None],
       sleeps := sleeps w @ [2 ^ Suc retry_count]\<rparr>)"
proof -
  have "(2::int) ^ Suc retry_count \<le> sleep_max" using assms(4) by (rule power_sleepable)
  moreover have "(0::int) \<le> 2 ^ Suc retry_count" by simp
  ultimately have "sleep (2 ^ Suc retry_count) w1 =
      (Inr (), w1\<lparr>clock := clock w1 + 2 ^ Suc retry_count,
         sleeps := sleeps w1 @ [2 ^ Suc retry_count]\<rparr>)" for w1
    by (intro sleep_accepted)
  with assms(1-3) show ?thesis
    by (simp add: individual_attempt_def send_eq response_at_Some)
qed

lemma individual_attempt_sleeps:
  assumes "individual_attempt env endpoint retry_count w = (st, w1)"
  shows "(\<exists>res. st = Leave res) \<Longrightarrow> sleeps w1 = sleeps w"
    and "(\<exists>s. st = Again s) \<Longrightarrow> sleeps w1 = sleeps w @ [2 ^ Suc retry_count]"
  using assms
  by (auto simp: individual_attempt_def send_eq sleep_def split: sum.splits if_splits prod.splits)

lemma individual_loop_Again:
  "int retry_count < max_retries \<Longrightarrow>
   individual_attempt env endpoint retry_count w = (Again (retry_count', prev'), w1) \<Longrightarrow>
   individual_loop env endpoint max_retries retry_count prev w =
     individual_loop env endpoint max_retries retry_count' prev' w1"
  by (simp add: individual_loop.simps)

lemma individual_loop_retries:
  assumes "retried_refresh env (length (requests w)) k"
    and "int (c + k) \<le> max_retries" and "c + k \<le> 33"
  shows "\<exists>w'. individual_loop env endpoint max_retries c prev w =
             individual_loop env endpoint max_retries
               (c + k) (last_error_after env (length (requests w)) k prev) w'
           \<and> requests w' = requests w @ replicate k (Request POST endpoint None)
           \<and> sleeps w' = sleeps w @ map (\<lambda>j. 2 ^ Suc j) [c..<c + k]
           \<and> clock w' = clock w
               + (\<Sum>i<k. int (latency_at env (length (requests w) + i)) + 2 ^ Suc (c + i))"
  using assms
proof (induction k arbitrary: c prev w)
  case 0
  show ?case by (rule exI [of _ w]) (simp add: last_error_after_def)
next
  case (Suc k)
  let ?rq = "Request POST endpoint None"
  let ?n = "length (requests w)"
  let ?loop = "individual_loop env endpoint max_retries"
  from retried_refresh_first [OF Suc.prems(1)] obtain r where r: "response_at env ?n = Some r"
    "\<not> ok r" "refresh_retryable r"
    by blast
  define w1 where "w1 = w\<lparr>clock := clock w + int (latency_at env ?n) + 2 ^ Suc c,
       requests := requests w @ [?rq], sleeps := sleeps w @ [2 ^ Suc c]\<rparr>"
  have c: "Suc c \<le> 33" using Suc.prems(3) by simp
  have step: "individual_attempt env endpoint c w = (Again (Suc c, Some (text r)), w1)"
    unfolding w1_def using r c by (rule individual_attempt_retry)
  have lt: "int c < max_retries" using Suc.prems(2) by simp
  have rq1: "requests w1 = requests w @ [?rq]" by (simp add: w1_def)
  have "retried_refresh env (length (requests w1)) k"
    using retried_refresh_shift [OF Suc.prems(1)] by (simp add: rq1)
  moreover have "int (Suc c + k) \<le> max_retries" using Suc.prems(2) by simp
  moreover have "Suc c + k \<le> 33" using Suc.prems(3) by simp
  ultimately obtain w' where w':
    "?loop (Suc c) (Some (text r)) w1 =
       ?loop (Suc c + k) (last_error_after env (length (requests w1)) k (Some (text r))) w'"
    "requests w' = requests w1 @ replicate k ?rq"
    "sleeps w' = sleeps w1 @ map (\<lambda>j. 2 ^ Suc j) [Suc c..<Suc c + k]"
    "clock w' = clock w1
       + (\<Sum>i<k. int (latency_at env (length (requests w1) + i)) + 2 ^ Suc (Suc c + i))"
    using Suc.IH [of w1 "Suc c" "Some (text r)"] by blast
  have prev: "last_error_after env (length (requests w1)) k (Some (text r)) =
      last_error_after env ?n (Suc k) prev"
    using r(1) by (cases k) (simp_all add: last_error_after_def rq1)
  from individual_loop_Again [OF lt step] w'(1) prev
  have "?loop c prev w = ?loop (c + Suc k) (last_error_after env ?n (Suc k) prev) w'"
    by simp
  moreover have "requests w' = requests w @ replicate (Suc k) ?rq"
    using w'(2) rq1 by (simp add: replicate_app_Cons_same)
  moreover have "sleeps w' = sleeps w @ map (\<lambda>j. 2 ^ Suc j) [c..<c + Suc k]"
  proof -
    have "[c..<c + Suc k] = c # [Suc c..<Suc c + k]" by (simp add: upt_conv_Cons)
    with w'(3) show ?thesis by (simp add: w1_def)
  qed
  moreover have "clock w' = clock w
               + (\<Sum>i<Suc k. int (latency_at env (?n + i)) + 2 ^ Suc (c + i))"
  proof -
    have "(\<Sum>i<Suc k. int (latency_at env (?n + i)) + 2 ^ Suc (c + i))
        = (int (latency_at env ?n) + 2 ^ Suc c)
          + (\<Sum>i<k. int (latency_at env (?n + Suc i)) + 2 ^ Suc (c + Suc i))"
      using sum_shift [of "\<lambda>i. int (latency_at env (?n + i)) + 2 ^ Suc (c + i)" k] by simp
    with w'(4) show ?thesis by (simp add: w1_def rq1)
  qed
  ultimately show ?case by blast
qed

section \<open>What every run sleeps and sends\<close>

lemma update_loop_sleeps:
  "\<exists>ws. sleeps (snd (update_loop env endpoint updated_body start end' max_retries attempt w))
          = sleeps w @ ws
      \<and> (\<forall>j<length ws. \<exists>r. response_at env (length (requests w) + j) = Some r
             \<and> wait_time (retry_after r) (attempt + j) = Inr (ws ! j))"
proof (induction env endpoint updated_body start end' max_retries attempt w
    rule: update_loop.induct)
  case (1 env endpoint updated_body start end' max_retries attempt w)
  let ?loop = "update_loop env endpoint updated_body start end' max_retries"
  show ?case
  proof (cases "int attempt < max_retries")
    case False
    then have "sleeps (snd (?loop attempt w)) = sleeps w @ []"
      by (simp add: update_loop_done)
    then show ?thesis by (intro exI [of _ "[]"]) simp
  next
    case True
    obtain st w1 where a: "update_attempt env endpoint updated_body start end' attempt w = (st, w1)"
      by fastforce
    show ?thesis
    proof (cases st)
      case (Leave res)
      with a have "sleeps w1 = sleeps w" by (intro update_attempt_effect(2) [OF a]) simp
      moreover from True a Leave have "?loop attempt w = (res, w1)"
        by (simp add: update_loop_Leave)
      ultimately have "sleeps (snd (?loop attempt w)) = sleeps w @ []" by simp
      then show ?thesis by (intro exI [of _ "[]"]) simp
    next
      case (Again u)
      from update_attempt_effect(3) [OF a] Again obtain r t where
        r: "response_at env (length (requests w)) = Some r"
           "wait_time (retry_after r) attempt = Inr t" "sleeps w1 = sleeps w @ [t]"
        by blast
      have rq1: "length (requests w1) = Suc (length (requests w))"
        using update_attempt_effect(1) [OF a] by simp
      from "1.IH" [OF True a [symmetric] Again] obtain ws where
        ws: "sleeps (snd (?loop (Suc attempt) w1)) = sleeps w1 @ ws"
            "\<forall>j<length ws. \<exists>r. response_at env (length (requests w1) + j) = Some r
               \<and> wait_time (retry_after r) (Suc attempt + j) = Inr (ws ! j)"
        by blast
      from True a Again have eq: "?loop attempt w = ?loop (Suc attempt) w1"
        by (simp add: update_loop_Again)
      have "sleeps (snd (?loop attempt w)) = sleeps w @ (t # ws)"
        using eq ws(1) r(3) by simp
      moreover have "\<forall>j<length (t # ws). \<exists>r. response_at env (length (requests w) + j) = Some r
             \<and> wait_time (retry_after r) (attempt + j) = Inr ((t # ws) ! j)"
      proof (intro allI impI)
        fix j assume j: "j < length (t # ws)"
        show "\<exists>r. response_at env (length (requests w) + j) = Some r
             \<and> wait_time (retry_after r) (attempt + j) = Inr ((t # ws) ! j)"
        proof (cases j)
          case 0
          with r show ?thesis by simp
        next
          case (Suc j')
          with j have "j' < length ws" by simp
          with ws(2) obtain r' where "response_at env (length (requests w1) + j') = Some r'"
            "wait_time (retry_after r') (Suc attempt + j') = Inr (ws ! j')" by blast
          with Suc rq1 show ?thesis by simp
        qed
      qed
      ultimately show ?thesis by blast
    qed
  qed
qed

lemma doubling_Cons:
  "(2::int) ^ Suc c # map (\<lambda>j. 2 ^ Suc (Suc c + j)) [0..<m] = map (\<lambda>j. 2 ^ Suc (c + j)) [0..<Suc m]"
proof -
  have "map (\<lambda>j. (2::int) ^ Suc (c + j)) [0..<Suc m]
      = 2 ^ Suc (c + 0) # map (\<lambda>j. 2 ^ Suc (c + Suc j)) [0..<m]"
    by (simp only: map_upt_Suc)
  then show ?thesis by simp
qed

lemma refresh_loop_sleeps:
  "\<exists>m. sleeps (snd (refresh_loop env refresh_endpoint diagnostic_endpoint max_retries
                      retry_count prev w))
          = sleeps w @ map (\<lambda>j. 2 ^ Suc (retry_count + j)) [0..<m]"
proof (induction env refresh_endpoint diagnostic_endpoint max_retries retry_count prev w
    rule: refresh_loop.induct)
  case (1 env refresh_endpoint diagnostic_endpoint max_retries retry_count prev w)
  let ?loop = "refresh_loop env refresh_endpoint diagnostic_endpoint max_retries"
  show ?case
  proof (cases "int retry_count < max_retries")
    case False
    then have "sleeps (snd (?loop retry_count prev w)) = sleeps w"
      by (auto simp: refresh_loop_done dest: diagnostic_read_keeps_sleeps
          split: prod.splits sum.splits)
    then show ?thesis by (intro exI [of _ 0]) simp
  next
    case True
    obtain st w1 where
      a: "refresh_attempt env refresh_endpoint diagnostic_endpoint retry_count w = (st, w1)"
      by fastforce
    show ?thesis
    proof (cases st)
      case (Leave res)
      with a have "sleeps w1 = sleeps w" by (intro refresh_attempt_sleeps(1) [OF a]) simp
      moreover from True a Leave have "?loop retry_count prev w = (res, w1)"
        by (simp add: refresh_loop_Leave)
      ultimately have "sleeps (snd (?loop retry_count prev w)) = sleeps w" by simp
      then show ?thesis by (intro exI [of _ 0]) simp
    next
      case (Again s)
      obtain rc' prev' where s: "s = (rc', prev')" by (cases s)
      with a Again have rc': "rc' = Suc retry_count"
        using refresh_attempt_Again by blast
      have sl: "sleeps w1 = sleeps w @ [2 ^ Suc retry_count]"
        using Again by (intro refresh_attempt_sleeps(2) [OF a]) simp
      from "1.IH" [OF True a [symmetric] Again s [symmetric]] obtain m where
        m: "sleeps (snd (?loop rc' prev' w1)) = sleeps w1 @ map (\<lambda>j. 2 ^ Suc (rc' + j)) [0..<m]"
        by blast
      from True a Again s have eq: "?loop retry_count prev w = ?loop rc' prev' w1"
        by (simp add: refresh_loop_Again)
      have "sleeps (snd (?loop retry_count prev w))
          = sleeps w @ map (\<lambda>j. 2 ^ Suc (retry_count + j)) [0..<Suc m]"
        using eq m sl rc' doubling_Cons [of retry_count m] by simp
      then show ?thesis by blast
    qed
  qed
qed

lemma individual_loop_sleeps:
  "\<exists>m. sleeps (snd (individual_loop env endpoint max_retries retry_count prev w))
          = sleeps w @ map (\<lambda>j. 2 ^ Suc (retry_count + j)) [0..<m]"
proof (induction env endpoint max_retries retry_count prev w rule: individual_loop.induct)
  case (1 env endpoint max_retries retry_count prev w)
  let ?loop = "individual_loop env endpoint max_retries"
  show ?case
  proof (cases "int retry_count < max_retries")
    case False
    then have "sleeps (snd (?loop retry_count prev w)) = sleeps w"
      by (simp add: individual_loop.simps)
    then show ?thesis by (intro exI [of _ 0]) simp
  next
    case True
    obtain st w1 where a: "individual_attempt env endpoint retry_count w = (st, w1)"
      by fastforce
    show ?thesis
    proof (cases st)
      case (Leave res)
      with a have "sleeps w1 = sleeps w" by (intro individual_attempt_sleeps(1) [OF a]) simp
      moreover from True a Leave have "?loop retry_count prev w = (res, w1)"
        by (simp add: individual_loop.simps)
      ultimately have "sleeps (snd (?loop retry_count prev w)) = sleeps w" by simp
      then show ?thesis by (intro exI [of _ 0]) simp
    next
      case (Again s)
      obtain rc' prev' where s: "s = (rc', prev')" by (cases s)
      with a Again have rc': "rc' = Suc retry_count"
        using individual_attempt_Again by blast
      have sl: "sleeps w1 = sleeps w @ [2 ^ Suc retry_count]"
        using Again by (intro individual_attempt_sleeps(2) [OF a]) simp
      from "1.IH" [OF True a [symmetric] Again s [symmetric]] obtain m where
        m: "sleeps (snd (?loop rc' prev' w1)) = sleeps w1 @ map (\<lambda>j. 2 ^ Suc (rc' + j)) [0..<m]"
        by blast
      from True a Again s have eq: "?loop retry_count prev w = ?loop rc' prev' w1"
        by (simp add: individual_loop.simps)
      have "sleeps (snd (?loop retry_count prev w))
          = sleeps w @ map (\<lambda>j. 2 ^ Suc (retry_count + j)) [0..<Suc m]"
        using eq m sl rc' doubling_Cons [of retry_count m] by simp
      then show ?thesis by blast
    qed
  qed
qed





section \<open>Exhausted retries\<close>

lemma always_timed_out_retried_update:
  "k \<le> 34 \<Longrightarrow> retried_update always_timed_out n k (\<lambda>i. 2 ^ i)"
  by (auto simp: retried_update_def always_timed_out_def timed_out_response_def response_at_def
      ok_def specified_wait_def intro!: power_sleepable)

lemma always_timed_out_retried_refresh: "retried_refresh always_timed_out n k"
  by (simp add: retried_refresh_def always_timed_out_def timed_out_response_def response_at_def
      ok_def)

lemma hinted_session_retried:
  "retried_update hinted_session 0 3 (\<lambda>i. if i = 0 then 7 else 2 ^ i)"
proof -
  have seven: "(7::int) \<le> sleep_max" by (simp add: sleep_max_def)
  have "i \<le> 33 \<Longrightarrow> (2::int) ^ i \<le> sleep_max" for i by (rule power_sleepable)
  with seven show ?thesis
    by (auto simp: retried_update_def hinted_session_def throttled_response_def response_at_def
        ok_def specified_wait_def isdigit_def is_digit_char_def is_ascii_digit_def
        digit_chars_def int_max_str_digits_def dec_value_def digit_val_def)
qed

text \<open>
  C1 (as amended). Let \<open>max_retries = N\<close>.
  \<^item> If each of the \<open>N\<close> PATCH requests gets a response that is not ok and is retryable
    (status 429 or a body containing \<^verbatim>\<open>MaxRequestDurationExceeded\<close>), and the wait
    prescribed after each is a length \<^verbatim>\<open>time.sleep\<close> accepts, then \<^verbatim>\<open>update_range_data\<close>
    sends exactly \<open>N\<close> PATCH requests, sleeps exactly those \<open>N\<close> waits, and raises its
    retries-exhausted exception.
  \<^item> If each of the \<open>N\<close> POST requests gets a response that is not ok and whose body
    contains \<^verbatim>\<open>MaxRequestDurationExceeded\<close>, \<open>N \<le> 33\<close> (so that every wait is a length
    \<^verbatim>\<open>time.sleep\<close> accepts), and the diagnostic read that follows returns, then
    \<^verbatim>\<open>refresh_pivot_table\<close> sends exactly \<open>N\<close> POST requests, sleeps \<open>2, 4, \<dots>, 2 ^ N\<close>,
    sends the one diagnostic GET, and raises its retries-exhausted exception.
\<close>

theorem retry_exhaustion_attempts:
  "(retried_update env (length (requests w)) N t
    \<longrightarrow> fst (update_range_data env site_id drive_id item_id sheet_name update_range
               chunk_data start end' (int N) w)
          = Inl (Exception (update_exhausted_msg start end' (int N)))
      \<and> requests (snd (update_range_data env site_id drive_id item_id sheet_name update_range
               chunk_data start end' (int N) w))
          = requests w @ replicate N
              (Request PATCH (update_endpoint site_id drive_id item_id sheet_name update_range)
                 (Some (JObj [(''values'', chunk_data)])))
      \<and> sleeps (snd (update_range_data env site_id drive_id item_id sheet_name update_range
               chunk_data start end' (int N) w))
          = sleeps w @ map t [0..<N])
   \<and> (retried_refresh env (length (requests w)) N \<and> N \<le> 33
        \<and> diagnostic_returns (snd (env (length (requests w) + N)))
    \<longrightarrow> fst (refresh_pivot_table env site_id drive_id item_id sheet_name (int N) w)
          = Inl (Exception (refresh_exhausted_msg
              (last_error_after env (length (requests w)) N None)))
      \<and> requests (snd (refresh_pivot_table env site_id drive_id item_id sheet_name (int N) w))
          = requests w
            @ replicate N
                (Request POST (refresh_pivot_endpoint site_id drive_id item_id sheet_name) None)
            @ [Request GET (pivot_tables_endpoint site_id drive_id item_id sheet_name) None]
      \<and> sleeps (snd (refresh_pivot_table env site_id drive_id item_id sheet_name (int N) w))
          = sleeps w @ map (\<lambda>j. 2 ^ Suc j) [0..<N])"
proof (intro conjI impI)
  assume "retried_update env (length (requests w)) N t"
  then show "fst (update_range_data env site_id drive_id item_id sheet_name update_range
               chunk_data start end' (int N) w)
          = Inl (Exception (update_exhausted_msg start end' (int N)))"
    and "requests (snd (update_range_data env site_id drive_id item_id sheet_name update_range
               chunk_data start end' (int N) w))
          = requests w @ replicate N
              (Request PATCH (update_endpoint site_id drive_id item_id sheet_name update_range)
                 (Some (JObj [(''values'', chunk_data)])))"
    and "sleeps (snd (update_range_data env site_id drive_id item_id sheet_name update_range
               chunk_data start end' (int N) w))
          = sleeps w @ map t [0..<N]"
    unfolding update_range_data_def by (rule update_exhaustion)+
next
  assume a: "retried_refresh env (length (requests w)) N \<and> N \<le> 33
        \<and> diagnostic_returns (snd (env (length (requests w) + N)))"
  then show "fst (refresh_pivot_table env site_id drive_id item_id sheet_name (int N) w)
          = Inl (Exception (refresh_exhausted_msg
              (last_error_after env (length (requests w)) N None)))"
    unfolding refresh_pivot_table_def by (intro refresh_exhaustion(1)) simp_all
  from a show "requests (snd (refresh_pivot_table env site_id drive_id item_id sheet_name
               (int N) w))
          = requests w
            @ replicate N
                (Request POST (refresh_pivot_endpoint site_id drive_id item_id sheet_name) None)
            @ [Request GET (pivot_tables_endpoint site_id drive_id item_id sheet_name) None]"
    unfolding refresh_pivot_table_def by (intro refresh_exhaustion(2)) simp_all
  from a show "sleeps (snd (refresh_pivot_table env site_id drive_id item_id sheet_name
               (int N) w))
          = sleeps w @ map (\<lambda>j. 2 ^ Suc j) [0..<N]"
    unfolding refresh_pivot_table_def by (intro refresh_exhaustion(3)) simp_all
qed

theorem retry_exhaustion_attempts_witness:
  "fst (update_range_data always_timed_out ''s'' ''d'' ''f'' ''Data'' ''A2:B6'' (JArr [])
          0 5 3 initial_world)
     = Inl (Exception ''Failed to update rows 1 to 5 after 3 attempts.'')
   \<and> length (requests (snd (update_range_data always_timed_out ''s'' ''d'' ''f'' ''Data''
          ''A2:B6'' (JArr []) 0 5 3 initial_world))) = 3
   \<and> sleeps (snd (update_range_data always_timed_out ''s'' ''d'' ''f'' ''Data''
          ''A2:B6'' (JArr []) 0 5 3 initial_world)) = [1, 2, 4]
   \<and> fst (refresh_pivot_table always_timed_out ''s'' ''d'' ''f'' ''Data'' 3 initial_world)
     = Inl (Exception (refresh_exhausted_msg (Some ''MaxRequestDurationExceeded'')))
   \<and> length (requests (snd (refresh_pivot_table always_timed_out ''s'' ''d'' ''f'' ''Data'' 3
          initial_world))) = 4
   \<and> sleeps (snd (refresh_pivot_table always_timed_out ''s'' ''d'' ''f'' ''Data'' 3
          initial_world)) = [2, 4, 8]"
  using retry_exhaustion_attempts [of always_timed_out initial_world 3 "\<lambda>i. 2 ^ i"
      "''s''" "''d''" "''f''" "''Data''" "''A2:B6''" "JArr []" 0 5]
    always_timed_out_retried_update [of 3 0] always_timed_out_retried_refresh [of 0 3]
  by (simp add: always_timed_out_def initial_world_def timed_out_response_def ok_def
      diagnostic_returns_def last_error_after_def response_at_def update_exhausted_msg_def
      str_int_def str_nat.simps digit_chars_def upt_rec)

text \<open>
  The claim as stated fails: the one POST of a run with \<open>max_retries = 1\<close> gets a
  retryable failure, the diagnostic request after the loop raises, and that exception,
  not the retries-exhausted one, is what \<^verbatim>\<open>refresh_pivot_table\<close> raises.
\<close>

theorem retry_exhaustion_counterexample:
  "response_at dropped_second_request 0 = Some timed_out_response
   \<and> \<not> ok timed_out_response \<and> refresh_retryable timed_out_response
   \<and> fst (refresh_pivot_table dropped_second_request ''s'' ''d'' ''f'' ''Data'' 1
         initial_world)
     = Inl (RequestException ''connection reset'')
   \<and> length (requests (snd (refresh_pivot_table dropped_second_request ''s'' ''d'' ''f''
         ''Data'' 1 initial_world))) = 2"
  by (simp add: refresh_pivot_table_def refresh_loop.simps refresh_attempt_def
      diagnostic_read_def send_def sleep_def sleep_max_def dropped_second_request_def
      initial_world_def timed_out_response_def response_at_def ok_def refresh_retryable_def)

text \<open>
  C6 (as amended). When all \<open>N\<close> attempts have failed retryably (with waits that
  \<^verbatim>\<open>time.sleep\<close> accepts),
  \<^item> the exception of \<^verbatim>\<open>update_range_data\<close> carries the row range (\<open>start + 1\<close> and
    \<open>end\<close>) and the attempt count, and nothing of any response;
  \<^item> the exception of \<^verbatim>\<open>refresh_pivot_table\<close> (for \<open>1 \<le> N \<le> 33\<close>, when the diagnostic
    read returns) carries the body of the last response, and neither its status nor the
    attempt count.
\<close>

theorem exhaustion_error_contents:
  "(retried_update env (length (requests w)) N t
    \<longrightarrow> fst (update_range_data env site_id drive_id item_id sheet_name update_range
               chunk_data start end' (int N) w)
          = Inl (Exception (''Failed to update rows '' @ str_int (start + 1) @ '' to ''
                   @ str_int end' @ '' after '' @ str_int (int N) @ '' attempts.'')))
   \<and> (retried_refresh env (length (requests w)) N \<and> 0 < N \<and> N \<le> 33
        \<and> response_at env (length (requests w) + N - 1) = Some r_last
        \<and> diagnostic_returns (snd (env (length (requests w) + N)))
    \<longrightarrow> fst (refresh_pivot_table env site_id drive_id item_id sheet_name (int N) w)
          = Inl (Exception (''Max retry attempts reached. The pivot table refresh ''
                   @ ''could not be completed. Last error: '' @ text r_last)))"
proof (intro conjI impI)
  assume "retried_update env (length (requests w)) N t"
  then have "fst (update_range_data env site_id drive_id item_id sheet_name update_range
               chunk_data start end' (int N) w)
          = Inl (Exception (update_exhausted_msg start end' (int N)))"
    unfolding update_range_data_def by (rule update_exhaustion)
  then show "fst (update_range_data env site_id drive_id item_id sheet_name update_range
               chunk_data start end' (int N) w)
          = Inl (Exception (''Failed to update rows '' @ str_int (start + 1) @ '' to ''
                   @ str_int end' @ '' after '' @ str_int (int N) @ '' attempts.''))"
    by (simp add: update_exhausted_msg_def)
next
  assume a: "retried_refresh env (length (requests w)) N \<and> 0 < N \<and> N \<le> 33
        \<and> response_at env (length (requests w) + N - 1) = Some r_last
        \<and> diagnostic_returns (snd (env (length (requests w) + N)))"
  then have "fst (refresh_pivot_table env site_id drive_id item_id sheet_name (int N) w)
          = Inl (Exception (refresh_exhausted_msg
              (last_error_after env (length (requests w)) N None)))"
    unfolding refresh_pivot_table_def by (intro refresh_exhaustion(1)) simp_all
  moreover from a have "last_error_after env (length (requests w)) N None = Some (text r_last)"
    by (simp add: last_error_after_def)
  ultimately show "fst (refresh_pivot_table env site_id drive_id item_id sheet_name (int N) w)
          = Inl (Exception (''Max retry attempts reached. The pivot table refresh ''
                   @ ''could not be completed. Last error: '' @ text r_last))"
    by (simp add: refresh_exhausted_msg_def)
qed

theorem exhaustion_error_contents_witness:
  "fst (update_range_data always_timed_out ''s'' ''d'' ''f'' ''Data'' ''A2:B6'' (JArr [])
          0 5 3 initial_world)
     = Inl (Exception ''Failed to update rows 1 to 5 after 3 attempts.'')
   \<and> fst (refresh_pivot_table always_timed_out ''s'' ''d'' ''f'' ''Data'' 3 initial_world)
     = Inl (Exception (''Max retry attempts reached. The pivot table refresh ''
          @ ''could not be completed. Last error: MaxRequestDurationExceeded''))"
  using exhaustion_error_contents [of always_timed_out initial_world 3 "\<lambda>i. 2 ^ i"
      "''s''" "''d''" "''f''" "''Data''" "''A2:B6''" "JArr []" 0 5 timed_out_response]
    always_timed_out_retried_update [of 3 0] always_timed_out_retried_refresh [of 0 3]
  by (simp add: always_timed_out_def initial_world_def timed_out_response_def ok_def
      diagnostic_returns_def response_at_def str_int_def str_nat.simps digit_chars_def)

text \<open>
  The claim as stated fails for \<^verbatim>\<open>update_range_data\<close>: the last response has status 429
  and the body \<^verbatim>\<open>Too Many Requests\<close>, and neither occurs in the exception raised.
\<close>

theorem exhaustion_error_contents_counterexample:
  "response_at hinted_session 2 = Some (throttled_response None)
   \<and> status_code (throttled_response None) = 429
   \<and> text (throttled_response None) = ''Too Many Requests''
   \<and> fst (update_range_data hinted_session ''s'' ''d'' ''f'' ''Data'' ''A2:B6'' (JArr [])
          0 5 3 initial_world)
     = Inl (Exception ''Failed to update rows 1 to 5 after 3 attempts.'')
   \<and> \<not> py_in ''Too Many Requests'' ''Failed to update rows 1 to 5 after 3 attempts.''
   \<and> \<not> py_in ''429'' ''Failed to update rows 1 to 5 after 3 attempts.''"
  by (simp add: update_range_data_def update_loop.simps update_attempt_def send_def sleep_def
      sleep_max_def hinted_session_def throttled_response_def initial_world_def ok_def
      update_retryable_def wait_time_def isdigit_def py_int_def is_digit_char_def
      is_ascii_digit_def digit_chars_def int_max_str_digits_def dec_value_def digit_val_def
      response_at_def update_exhausted_msg_def str_int_def str_nat.simps)

section \<open>Results of \<^verbatim>\<open>update_range_data\<close>\<close>

lemma update_attempt_not_False:
  "fst (update_attempt env endpoint updated_body start end' attempt w) \<noteq> Leave (Inr False)"
  by (simp add: update_attempt_def split: prod.split sum.split)

lemma update_loop_not_False:
  "fst (update_loop env endpoint updated_body start end' max_retries attempt w) \<noteq> Inr False"
proof (induction env endpoint updated_body start end' max_retries attempt w
    rule: update_loop.induct)
  case (1 env endpoint updated_body start end' max_retries attempt w)
  show ?case
  proof (cases "int attempt < max_retries")
    case False
    then show ?thesis by (simp add: update_loop.simps)
  next
    case True
    obtain s w1 where a: "update_attempt env endpoint updated_body start end' attempt w = (s, w1)"
      by fastforce
    show ?thesis
    proof (cases s)
      case (Leave r)
      with a update_attempt_not_False [of env endpoint updated_body start end' attempt w]
      have "r \<noteq> Inr False" by simp
      with True a Leave show ?thesis by (simp add: update_loop.simps)
    next
      case (Again u)
      with True a "1.IH" show ?thesis
        by (simp add: update_loop.simps)
    qed
  qed
qed

text \<open>
  C9. Called with \<open>max_retries = 0\<close>, \<^verbatim>\<open>update_range_data\<close> does not enter its loop: it
  raises the retries-exhausted exception at once and the world is unchanged, so no
  request has been sent (and nothing has been slept).
\<close>

theorem update_range_data_zero_retries:
  "update_range_data env site_id drive_id new_item_id raw_data_sheet_name update_range
       chunk_data start end' 0 w
     = (Inl (Exception (update_exhausted_msg start end' 0)), w)"
  by (simp add: update_range_data_def update_loop.simps)

text \<open>
  C10. For every input, \<^verbatim>\<open>update_range_data\<close> returns \<^verbatim>\<open>True\<close> or raises: its result
  is never \<^verbatim>\<open>False\<close>. (The model function is total, so it always does one of the two.)
\<close>

theorem update_range_data_never_False:
  "(\<exists>e. fst (update_range_data env site_id drive_id new_item_id raw_data_sheet_name
               update_range chunk_data start end' max_retries w) = Inl e)
   \<or> fst (update_range_data env site_id drive_id new_item_id raw_data_sheet_name
               update_range chunk_data start end' max_retries w) = Inr True"
proof -
  let ?r = "fst (update_range_data env site_id drive_id new_item_id raw_data_sheet_name
               update_range chunk_data start end' max_retries w)"
  have "?r \<noteq> Inr False"
    unfolding update_range_data_def by (rule update_loop_not_False)
  then show ?thesis by (cases ?r) auto
qed

section \<open>Wait durations\<close>

lemma update_run_sleeps:
  assumes "retried_update env (length (requests w)) (Suc k) t" and "int k < max_retries"
  shows "\<exists>w'. update_loop env endpoint updated_body start end' max_retries 0 w
             = update_loop env endpoint updated_body start end' max_retries (Suc k) w'
           \<and> requests w' = requests w
               @ replicate (Suc k) (Request PATCH endpoint (Some updated_body))
           \<and> sleeps w' = sleeps w @ map t [0..<Suc k]
           \<and> clock w' = clock w
               + (\<Sum>i<Suc k. int (latency_at env (length (requests w) + i)) + t i)"
    and "\<exists>rest. sleeps (snd (update_loop env endpoint updated_body start end' max_retries 0 w))
             = sleeps w @ map t [0..<Suc k] @ rest"
proof -
  let ?loop = "update_loop env endpoint updated_body start end' max_retries"
  from assms(2) have "int (Suc k) \<le> max_retries" by simp
  from update_loop_retried [OF assms(1) this, of endpoint updated_body start end']
  obtain w' where w': "?loop 0 w = ?loop (Suc k) w'"
    "requests w' = requests w @ replicate (Suc k) (Request PATCH endpoint (Some updated_body))"
    "sleeps w' = sleeps w @ map t [0..<Suc k]"
    "clock w' = clock w
               + (\<Sum>i<Suc k. int (latency_at env (length (requests w) + i)) + t i)"
    by blast
  then show "\<exists>w'. ?loop 0 w = ?loop (Suc k) w'
           \<and> requests w' = requests w
               @ replicate (Suc k) (Request PATCH endpoint (Some updated_body))
           \<and> sleeps w' = sleeps w @ map t [0..<Suc k]
           \<and> clock w' = clock w
               + (\<Sum>i<Suc k. int (latency_at env (length (requests w) + i)) + t i)"
    by blast
  from update_loop_sleeps [of env endpoint updated_body start end' max_retries "Suc k" w']
  obtain ws where "sleeps (snd (?loop (Suc k) w')) = sleeps w' @ ws" by blast
  with w'(1,3) show "\<exists>rest. sleeps (snd (?loop 0 w)) = sleeps w @ map t [0..<Suc k] @ rest"
    by simp
qed

lemma refresh_run_sleeps:
  assumes "retried_refresh env (length (requests w)) (Suc k)" and "int k < max_retries"
    and "k \<le> 32"
  shows "\<exists>w'. refresh_loop env refresh_endpoint diagnostic_endpoint max_retries 0 None w
             = refresh_loop env refresh_endpoint diagnostic_endpoint max_retries (Suc k)
                 (last_error_after env (length (requests w)) (Suc k) None) w'
           \<and> requests w' = requests w
               @ replicate (Suc k) (Request POST refresh_endpoint None)
           \<and> sleeps w' = sleeps w @ map (\<lambda>j. 2 ^ Suc j) [0..<Suc k]
           \<and> clock w' = clock w
               + (\<Sum>i<Suc k. int (latency_at env (length (requests w) + i)) + 2 ^ Suc i)"
    and "\<exists>rest. sleeps (snd (refresh_loop env refresh_endpoint diagnostic_endpoint max_retries
               0 None w))
             = sleeps w @ map (\<lambda>j. 2 ^ Suc j) [0..<Suc k] @ rest"
proof -
  let ?loop = "refresh_loop env refresh_endpoint diagnostic_endpoint max_retries"
  let ?prev = "last_error_after env (length (requests w)) (Suc k) None"
  from assms(2,3) have "int (0 + Suc k) \<le> max_retries" "0 + Suc k \<le> 33" by simp_all
  from refresh_loop_retries [OF assms(1) this, of refresh_endpoint diagnostic_endpoint None]
  obtain w' where w': "?loop 0 None w = ?loop (Suc k) ?prev w'"
    "requests w' = requests w @ replicate (Suc k) (Request POST refresh_endpoint None)"
    "sleeps w' = sleeps w @ map (\<lambda>j. 2 ^ Suc j) [0..<Suc k]"
    "clock w' = clock w
               + (\<Sum>i<Suc k. int (latency_at env (length (requests w) + i)) + 2 ^ Suc i)"
    by auto
  then show "\<exists>w'. ?loop 0 None w = ?loop (Suc k) ?prev w'
           \<and> requests w' = requests w
               @ replicate (Suc k) (Request POST refresh_endpoint None)
           \<and> sleeps w' = sleeps w @ map (\<lambda>j. 2 ^ Suc j) [0..<Suc k]
           \<and> clock w' = clock w
               + (\<Sum>i<Suc k. int (latency_at env (length (requests w) + i)) + 2 ^ Suc i)"
    by blast
  from refresh_loop_sleeps [of env refresh_endpoint diagnostic_endpoint max_retries "Suc k"
      ?prev w']
  obtain m where "sleeps (snd (?loop (Suc k) ?prev w'))
      = sleeps w' @ map (\<lambda>j. 2 ^ Suc (Suc k + j)) [0..<m]" by blast
  with w'(1,3) show "\<exists>rest. sleeps (snd (?loop 0 None w))
      = sleeps w @ map (\<lambda>j. 2 ^ Suc j) [0..<Suc k] @ rest"
    by simp
qed

lemma individual_run_sleeps:
  assumes "retried_refresh env (length (requests w)) (Suc k)" and "int k < max_retries"
    and "k \<le> 32"
  shows "\<exists>w'. individual_loop env endpoint max_retries 0 None w
             = individual_loop env endpoint max_retries (Suc k)
                 (last_error_after env (length (requests w)) (Suc k) None) w'
           \<and> requests w' = requests w @ replicate (Suc k) (Request POST endpoint None)
           \<and> sleeps w' = sleeps w @ map (\<lambda>j. 2 ^ Suc j) [0..<Suc k]
           \<and> clock w' = clock w
               + (\<Sum>i<Suc k. int (latency_at env (length (requests w) + i)) + 2 ^ Suc i)"
    and "\<exists>rest. sleeps (snd (individual_loop env endpoint max_retries 0 None w))
             = sleeps w @ map (\<lambda>j. 2 ^ Suc j) [0..<Suc k] @ rest"
proof -
  let ?loop = "individual_loop env endpoint max_retries"
  let ?prev = "last_error_after env (length (requests w)) (Suc k) None"
  from assms(2,3) have "int (0 + Suc k) \<le> max_retries" "0 + Suc k \<le> 33" by simp_all
  from individual_loop_retries [OF assms(1) this, of endpoint None]
  obtain w' where w': "?loop 0 None w = ?loop (Suc k) ?prev w'"
    "requests w' = requests w @ replicate (Suc k) (Request POST endpoint None)"
    "sleeps w' = sleeps w @ map (\<lambda>j. 2 ^ Suc j) [0..<Suc k]"
    "clock w' = clock w
               + (\<Sum>i<Suc k. int (latency_at env (length (requests w) + i)) + 2 ^ Suc i)"
    by auto
  then show "\<exists>w'. ?loop 0 None w = ?loop (Suc k) ?prev w'
           \<and> requests w' = requests w @ replicate (Suc k) (Request POST endpoint None)
           \<and> sleeps w' = sleeps w @ map (\<lambda>j. 2 ^ Suc j) [0..<Suc k]
           \<and> clock w' = clock w
               + (\<Sum>i<Suc k. int (latency_at env (length (requests w) + i)) + 2 ^ Suc i)"
    by blast
  from individual_loop_sleeps [of env endpoint max_retries "Suc k" ?prev w']
  obtain m where "sleeps (snd (?loop (Suc k) ?prev w'))
      = sleeps w' @ map (\<lambda>j. 2 ^ Suc (Suc k + j)) [0..<m]" by blast
  with w'(1,3) show "\<exists>rest. sleeps (snd (?loop 0 None w))
      = sleeps w @ map (\<lambda>j. 2 ^ Suc j) [0..<Suc k] @ rest"
    by simp
qed

text \<open>
  C2 (as amended). Let the first \<open>k + 1\<close> attempts fail retryably, with attempts left
  (\<open>k < max_retries\<close>).
  \<^item> \<^verbatim>\<open>update_range_data\<close> then goes on as its loop at attempt \<open>k + 1\<close> in a world where
    exactly \<open>k + 1\<close> requests have been sent and exactly the \<open>k + 1\<close> prescribed waits
    \<open>t 0, \<dots>, t k\<close> have been slept, the clock having advanced by them: after the
    0-indexed attempt \<open>j\<close> the function waits \<open>2 ^ j\<close> seconds when the
    \<^verbatim>\<open>Retry-After\<close> header is missing, empty or not accepted by \<open>isdigit\<close>, and the
    number the header spells when it is a string of at most \<open>int_max_str_digits\<close>
    decimal digits (a hint of zero gives no wait), in each case a length that
    \<^verbatim>\<open>time.sleep\<close> accepts.
  \<^item> \<^verbatim>\<open>refresh_pivot_table\<close> and \<^verbatim>\<open>refresh_individual_pivot_table\<close> never read the header:
    for \<open>k \<le> 32\<close> they go on at attempt \<open>k + 1\<close> having slept \<open>2, 4, \<dots>, 2 ^ (k + 1)\<close>.
  \<^item> In every run, whatever the responses, each sleep of \<^verbatim>\<open>update_range_data\<close> is what
    the source's expression gives for the response of its attempt, and the sleeps of the
    refresh functions are \<open>2, 4, 8, \<dots>\<close> in this order.
\<close>

theorem wait_durations:
  "(retried_update env (length (requests w)) (Suc k) t \<and> int k < max_retries
    \<longrightarrow> (\<exists>w'. update_range_data env site_id drive_id item_id sheet_name update_range
                  chunk_data start end' max_retries w
                = update_loop env
                    (update_endpoint site_id drive_id item_id sheet_name update_range)
                    (JObj [(''values'', chunk_data)]) start end' max_retries (Suc k) w'
              \<and> requests w' = requests w @ replicate (Suc k)
                  (Request PATCH
                     (update_endpoint site_id drive_id item_id sheet_name update_range)
                     (Some (JObj [(''values'', chunk_data)])))
              \<and> sleeps w' = sleeps w @ map t [0..<Suc k]
              \<and> clock w' = clock w
                  + (\<Sum>i<Suc k. int (latency_at env (length (requests w) + i)) + t i))
        \<and> (\<exists>rest. sleeps (snd (update_range_data env site_id drive_id item_id sheet_name
                         update_range chunk_data start end' max_retries w))
                = sleeps w @ map t [0..<Suc k] @ rest))
   \<and> (retried_refresh env (length (requests w)) (Suc k) \<and> int k < max_retries \<and> k \<le> 32
    \<longrightarrow> (\<exists>w'. refresh_pivot_table env site_id drive_id item_id sheet_name max_retries w
                = refresh_loop env
                    (refresh_pivot_endpoint site_id drive_id item_id sheet_name)
                    (pivot_tables_endpoint site_id drive_id item_id sheet_name) max_retries
                    (Suc k) (last_error_after env (length (requests w)) (Suc k) None) w'
              \<and> requests w' = requests w @ replicate (Suc k)
                  (Request POST (refresh_pivot_endpoint site_id drive_id item_id sheet_name)
                     None)
              \<and> sleeps w' = sleeps w @ map (\<lambda>j. 2 ^ Suc j) [0..<Suc k]
              \<and> clock w' = clock w
                  + (\<Sum>i<Suc k. int (latency_at env (length (requests w) + i)) + 2 ^ Suc i))
        \<and> (\<exists>rest. sleeps (snd (refresh_pivot_table env site_id drive_id item_id sheet_name
                         max_retries w))
                = sleeps w @ map (\<lambda>j. 2 ^ Suc j) [0..<Suc k] @ rest)
        \<and> (\<exists>w'. refresh_individual_pivot_table env site_id drive_id item_id sheet_name
                  pivot_name max_retries w
                = individual_loop env
                    (individual_endpoint site_id drive_id item_id sheet_name pivot_name)
                    max_retries (Suc k)
                    (last_error_after env (length (requests w)) (Suc k) None) w'
              \<and> requests w' = requests w @ replicate (Suc k)
                  (Request POST
                     (individual_endpoint site_id drive_id item_id sheet_name pivot_name) None)
              \<and> sleeps w' = sleeps w @ map (\<lambda>j. 2 ^ Suc j) [0..<Suc k]
              \<and> clock w' = clock w
                  + (\<Sum>i<Suc k. int (latency_at env (length (requests w) + i)) + 2 ^ Suc i))
        \<and> (\<exists>rest. sleeps (snd (refresh_individual_pivot_table env site_id drive_id item_id
                         sheet_name pivot_name max_retries w))
                = sleeps w @ map (\<lambda>j. 2 ^ Suc j) [0..<Suc k] @ rest))
   \<and> (\<exists>ws. sleeps (snd (update_range_data env site_id drive_id item_id sheet_name update_range
                 chunk_data start end' max_retries w)) = sleeps w @ ws
       \<and> (\<forall>j<length ws. \<exists>r. response_at env (length (requests w) + j) = Some r
              \<and> wait_time (retry_after r) j = Inr (ws ! j)))
   \<and> (\<exists>m. sleeps (snd (refresh_pivot_table env site_id drive_id item_id sheet_name
                 max_retries w)) = sleeps w @ map (\<lambda>j. 2 ^ Suc j) [0..<m])
   \<and> (\<exists>m. sleeps (snd (refresh_individual_pivot_table env site_id drive_id item_id sheet_name
                 pivot_name max_retries w)) = sleeps w @ map (\<lambda>j. 2 ^ Suc j) [0..<m])
   \<and> specified_wait None k = Some (2 ^ k)
   \<and> specified_wait (Some []) k = Some (2 ^ k)
   \<and> (\<not> isdigit malformed \<longrightarrow> specified_wait (Some malformed) k = Some (2 ^ k))
   \<and> (h \<noteq> [] \<and> list_all is_ascii_digit h \<and> length h \<le> int_max_str_digits
        \<longrightarrow> specified_wait (Some h) k = Some (dec_value h))
   \<and> specified_wait (Some ''0'') k = Some 0"
proof -
  let ?patch = "update_endpoint site_id drive_id item_id sheet_name update_range"
  let ?body = "JObj [(''values'', chunk_data)]"
  let ?post = "refresh_pivot_endpoint site_id drive_id item_id sheet_name"
  let ?get = "pivot_tables_endpoint site_id drive_id item_id sheet_name"
  let ?ind = "individual_endpoint site_id drive_id item_id sheet_name pivot_name"
  have u: "(\<exists>w'. update_range_data env site_id drive_id item_id sheet_name update_range
                  chunk_data start end' max_retries w
                = update_loop env ?patch ?body start end' max_retries (Suc k) w'
              \<and> requests w' = requests w @ replicate (Suc k) (Request PATCH ?patch (Some ?body))
              \<and> sleeps w' = sleeps w @ map t [0..<Suc k]
              \<and> clock w' = clock w
                  + (\<Sum>i<Suc k. int (latency_at env (length (requests w) + i)) + t i))
        \<and> (\<exists>rest. sleeps (snd (update_range_data env site_id drive_id item_id sheet_name
                         update_range chunk_data start end' max_retries w))
                = sleeps w @ map t [0..<Suc k] @ rest)"
    if "retried_update env (length (requests w)) (Suc k) t \<and> int k < max_retries"
    unfolding update_range_data_def
    using update_run_sleeps [of env w k t max_retries ?patch ?body start end'] that by blast
  have r: "(\<exists>w'. refresh_pivot_table env site_id drive_id item_id sheet_name max_retries w
                = refresh_loop env ?post ?get max_retries
                    (Suc k) (last_error_after env (length (requests w)) (Suc k) None) w'
              \<and> requests w' = requests w @ replicate (Suc k) (Request POST ?post None)
              \<and> sleeps w' = sleeps w @ map (\<lambda>j. 2 ^ Suc j) [0..<Suc k]
              \<and> clock w' = clock w
                  + (\<Sum>i<Suc k. int (latency_at env (length (requests w) + i)) + 2 ^ Suc i))
        \<and> (\<exists>rest. sleeps (snd (refresh_pivot_table env site_id drive_id item_id sheet_name
                         max_retries w))
                = sleeps w @ map (\<lambda>j. 2 ^ Suc j) [0..<Suc k] @ rest)"
    if "retried_refresh env (length (requests w)) (Suc k) \<and> int k < max_retries \<and> k \<le> 32"
    unfolding refresh_pivot_table_def
    using refresh_run_sleeps [of env w k max_retries ?post ?get] that by blast
  have i: "(\<exists>w'. refresh_individual_pivot_table env site_id drive_id item_id sheet_name
                  pivot_name max_retries w
                = individual_loop env ?ind max_retries (Suc k)
                    (last_error_after env (length (requests w)) (Suc k) None) w'
              \<and> requests w' = requests w @ replicate (Suc k) (Request POST ?ind None)
              \<and> sleeps w' = sleeps w @ map (\<lambda>j. 2 ^ Suc j) [0..<Suc k]
              \<and> clock w' = clock w
                  + (\<Sum>i<Suc k. int (latency_at env (length (requests w) + i)) + 2 ^ Suc i))
        \<and> (\<exists>rest. sleeps (snd (refresh_individual_pivot_table env site_id drive_id item_id
                         sheet_name pivot_name max_retries w))
                = sleeps w @ map (\<lambda>j. 2 ^ Suc j) [0..<Suc k] @ rest)"
    if "retried_refresh env (length (requests w)) (Suc k) \<and> int k < max_retries \<and> k \<le> 32"
    unfolding refresh_individual_pivot_table_def
    using individual_run_sleeps [of env w k max_retries ?ind] that by blast
  have inv_u: "\<exists>ws. sleeps (snd (update_range_data env site_id drive_id item_id sheet_name
                 update_range chunk_data start end' max_retries w)) = sleeps w @ ws
       \<and> (\<forall>j<length ws. \<exists>r. response_at env (length (requests w) + j) = Some r
              \<and> wait_time (retry_after r) j = Inr (ws ! j))"
    unfolding update_range_data_def
    using update_loop_sleeps [of env _ _ start end' max_retries 0 w] by simp
  have inv_r: "\<exists>m. sleeps (snd (refresh_pivot_table env site_id drive_id item_id sheet_name
                 max_retries w)) = sleeps w @ map (\<lambda>j. 2 ^ Suc j) [0..<m]"
    unfolding refresh_pivot_table_def
    using refresh_loop_sleeps [of env _ _ max_retries 0 None w] by simp
  have inv_i: "\<exists>m. sleeps (snd (refresh_individual_pivot_table env site_id drive_id item_id
                 sheet_name pivot_name max_retries w))
             = sleeps w @ map (\<lambda>j. 2 ^ Suc j) [0..<m]"
    unfolding refresh_individual_pivot_table_def
    using individual_loop_sleeps [of env _ max_retries 0 None w] by simp
  have s1: "specified_wait None k = Some (2 ^ k)" by (simp add: specified_wait_def)
  have s2: "specified_wait (Some []) k = Some (2 ^ k)"
    by (simp add: specified_wait_def isdigit_def)
  have s3: "specified_wait (Some malformed) k = Some (2 ^ k)" if "\<not> isdigit malformed"
    using that by (simp add: specified_wait_def)
  have s4: "specified_wait (Some h) k = Some (dec_value h)"
    if "h \<noteq> [] \<and> list_all is_ascii_digit h \<and> length h \<le> int_max_str_digits"
  proof -
    from that have "list_all is_digit_char h"
      by (simp add: list_all_iff is_digit_char_def)
    with that show ?thesis by (simp add: specified_wait_def isdigit_def)
  qed
  have s5: "specified_wait (Some ''0'') k = Some 0"
    by (simp add: specified_wait_def isdigit_def is_digit_char_def is_ascii_digit_def
        digit_chars_def int_max_str_digits_def dec_value_def digit_val_def)
  from u r i inv_u inv_r inv_i s1 s2 s3 s4 s5 show ?thesis by blast
qed

text \<open>
  What the statement above leaves out: a superscript digit passes \<open>isdigit\<close> and makes
  \<^verbatim>\<open>int()\<close> raise, and a number beyond \<open>sleep_max\<close> makes \<^verbatim>\<open>time.sleep\<close> raise; in both
  cases \<^verbatim>\<open>update_range_data\<close> raises instead of waiting.
\<close>

lemma superscript_hint_raises: "wait_time (Some [CHR 0xB2]) attempt = Inl ValueError"
  by (simp add: wait_time_def isdigit_def is_digit_char_def py_int_def is_ascii_digit_def
      digit_chars_def)

lemma huge_hint_raises:
  "wait_time (Some ''9223372037'') attempt = Inr 9223372037
   \<and> sleep 9223372037 w = (Inl OverflowError, w)"
  by (simp add: wait_time_def isdigit_def is_digit_char_def py_int_def is_ascii_digit_def
      digit_chars_def int_max_str_digits_def dec_value_def digit_val_def sleep_def sleep_max_def)

theorem wait_durations_witness:
  "retried_update hinted_session 0 3 (\<lambda>i. if i = 0 then 7 else 2 ^ i)
   \<and> (\<exists>rest. sleeps (snd (update_range_data hinted_session ''s'' ''d'' ''f'' ''Data''
          ''A2:B6'' (JArr []) 0 5 3 initial_world)) = [7, 2, 4] @ rest)
   \<and> retried_refresh always_timed_out 0 3
   \<and> (\<exists>rest. sleeps (snd (refresh_pivot_table always_timed_out ''s'' ''d'' ''f'' ''Data'' 3
          initial_world)) = [2, 4, 8] @ rest)
   \<and> (\<exists>rest. sleeps (snd (refresh_individual_pivot_table always_timed_out ''s'' ''d'' ''f''
          ''Data'' ''Pivot'' 3 initial_world)) = [2, 4, 8] @ rest)
   \<and> \<not> isdigit ''soon'' \<and> specified_wait (Some ''soon'') 2 = Some 4
   \<and> list_all is_ascii_digit ''7'' \<and> specified_wait (Some ''7'') 2 = Some 7"
  using wait_durations [of hinted_session initial_world 2 "\<lambda>i. if i = 0 then 7 else 2 ^ i" 3
      "''s''" "''d''" "''f''" "''Data''" "''A2:B6''" "JArr []" 0 5 "''Pivot''" "''soon''" "''7''"]
    wait_durations [of always_timed_out initial_world 2 "\<lambda>i. 2 ^ i" 3
      "''s''" "''d''" "''f''" "''Data''" "''A2:B6''" "JArr []" 0 5 "''Pivot''" "''soon''" "''7''"]
    hinted_session_retried always_timed_out_retried_refresh [of 0 3]
  by (simp add: initial_world_def isdigit_def is_digit_char_def is_ascii_digit_def
      digit_chars_def int_max_str_digits_def dec_value_def digit_val_def upt_rec
      numeral_3_eq_3)

text \<open>
  The claim as stated fails for \<^verbatim>\<open>refresh_pivot_table\<close>: the response asks for a retry
  after 0 seconds and the function sleeps 2 seconds all the same.
\<close>

theorem wait_durations_counterexample:
  "response_at zero_hint_session 0 = Some zero_hint_response
   \<and> \<not> ok zero_hint_response
   \<and> py_in ''MaxRequestDurationExceeded'' (text zero_hint_response)
   \<and> retry_after zero_hint_response = Some ''0''
   \<and> sleeps (snd (refresh_pivot_table zero_hint_session ''s'' ''d'' ''f'' ''Data'' 1
         initial_world)) = [2]"
  by (simp add: refresh_pivot_table_def refresh_loop.simps refresh_attempt_def
      diagnostic_read_def send_def sleep_def sleep_max_def zero_hint_session_def
      initial_world_def zero_hint_response_def response_at_def ok_def refresh_retryable_def)

section \<open>Failures that are not retryable\<close>



text \<open>A failure that is not retryable, met after \<open>k\<close> retried attempts.\<close>

lemma refresh_loop_fatal:
  assumes "retried_refresh env (length (requests w)) k" and "k \<le> 33"
    and r: "response_at env (length (requests w) + k) = Some r" "\<not> ok r"
      "\<not> refresh_retryable r"
    and k: "int k < max_retries"
  shows "\<exists>w1. requests w1 = requests w @ replicate (Suc k) (Request POST refresh_endpoint None)
      \<and> sleeps w1 = sleeps w @ map (\<lambda>j. 2 ^ Suc j) [0..<k]
      \<and> refresh_loop env refresh_endpoint diagnostic_endpoint max_retries 0 None w =
        (case diagnostic_read env diagnostic_endpoint w1 of
           (Inl e, w2) \<Rightarrow> (Inl e, w2)
         | (Inr u, w2) \<Rightarrow> (Inl (Exception (refresh_failed_msg (text r))), w2))"
proof -
  let ?loop = "refresh_loop env refresh_endpoint diagnostic_endpoint max_retries"
  let ?rq = "Request POST refresh_endpoint None"
  from k assms(2) have "int (0 + k) \<le> max_retries" "0 + k \<le> 33" by simp_all
  from refresh_loop_retries [OF assms(1) this, of refresh_endpoint diagnostic_endpoint None]
  obtain w' where w': "?loop 0 None w = ?loop k (last_error_after env (length (requests w)) k None) w'"
    "requests w' = requests w @ replicate k ?rq"
    "sleeps w' = sleeps w @ map (\<lambda>j. 2 ^ Suc j) [0..<k]"
    by auto
  define w1 where "w1 = w'\<lparr>clock := clock w' + int (latency_at env (length (requests w'))),
               requests := requests w' @ [?rq]\<rparr>"
  have "response_at env (length (requests w')) = Some r" using r(1) w'(2) by simp
  from refresh_attempt_fatal [OF this r(2,3), of refresh_endpoint diagnostic_endpoint k]
  have "refresh_attempt env refresh_endpoint diagnostic_endpoint k w' =
    (case diagnostic_read env diagnostic_endpoint w1 of
       (Inl e, w2) \<Rightarrow> (Leave (Inl e), w2)
     | (Inr u, w2) \<Rightarrow> (Leave (Inl (Exception (refresh_failed_msg (text r)))), w2))"
    by (simp add: w1_def)
  with k have "?loop k (last_error_after env (length (requests w)) k None) w' =
        (case diagnostic_read env diagnostic_endpoint w1 of
           (Inl e, w2) \<Rightarrow> (Inl e, w2)
         | (Inr u, w2) \<Rightarrow> (Inl (Exception (refresh_failed_msg (text r))), w2))"
    by (simp add: refresh_loop.simps split: prod.splits sum.splits)
  moreover have "requests w1 = requests w @ replicate (Suc k) ?rq"
    using w'(2) by (simp add: w1_def replicate_app_Cons_same)
  moreover have "sleeps w1 = sleeps w @ map (\<lambda>j. 2 ^ Suc j) [0..<k]"
    using w'(3) by (simp add: w1_def)
  ultimately show ?thesis using w'(1) by auto
qed

text \<open>
  The thirty-fourth retried attempt asks \<^verbatim>\<open>time.sleep\<close> for \<open>2 ^ 34\<close> seconds, which it
  refuses.
\<close>

lemma refresh_loop_overflow:
  assumes "retried_refresh env (length (requests w)) k" and "33 < k" and "int k < max_retries"
  shows "fst (refresh_loop env refresh_endpoint diagnostic_endpoint max_retries 0 None w)
           = Inl OverflowError"
    and "requests (snd (refresh_loop env refresh_endpoint diagnostic_endpoint max_retries
             0 None w))
           = requests w @ replicate 34 (Request POST refresh_endpoint None)"
    and "sleeps (snd (refresh_loop env refresh_endpoint diagnostic_endpoint max_retries
             0 None w))
           = sleeps w @ map (\<lambda>j. 2 ^ Suc j) [0..<33]"
proof -
  let ?loop = "refresh_loop env refresh_endpoint diagnostic_endpoint max_retries"
  let ?rq = "Request POST refresh_endpoint None"
  let ?n = "length (requests w)"
  from assms(2) have "(33::nat) \<le> k" by simp
  from retried_refresh_mono [OF assms(1) this]
  have pre: "retried_refresh env ?n 33" .
  from assms(2,3) have b: "int (0 + 33) \<le> max_retries" "(0::nat) + 33 \<le> 33" by simp_all
  from refresh_loop_retries [OF pre b, of refresh_endpoint diagnostic_endpoint None]
  obtain w' where w': "?loop 0 None w = ?loop 33 (last_error_after env ?n 33 None) w'"
    "requests w' = requests w @ replicate 33 ?rq"
    "sleeps w' = sleeps w @ map (\<lambda>j. 2 ^ Suc j) [0..<33]"
    by auto
  from retried_refreshD [OF assms(1)] assms(2) obtain r where
    r: "response_at env (?n + 33) = Some r" "\<not> ok r" "refresh_retryable r"
    by force
  define w1 where "w1 = w'\<lparr>clock := clock w' + int (latency_at env (length (requests w'))),
               requests := requests w' @ [?rq]\<rparr>"
  have "response_at env (length (requests w')) = Some r" using r(1) w'(2) by simp
  from refresh_attempt_overflow [OF this r(2,3), of 33 refresh_endpoint diagnostic_endpoint]
  have step: "refresh_attempt env refresh_endpoint diagnostic_endpoint 33 w'
      = (Leave (Inl OverflowError), w1)"
    by (simp add: w1_def)
  from assms(2,3) have "int 33 < max_retries" by simp
  from refresh_loop_Leave [OF this step] w'(1)
  have run: "?loop 0 None w = (Inl OverflowError, w1)" by simp
  show "fst (?loop 0 None w) = Inl OverflowError" using run by simp
  have "(34::nat) = Suc 33" by simp
  then have "replicate 34 ?rq = ?rq # replicate 33 ?rq" by (simp only: replicate_Suc)
  then have "replicate 33 ?rq @ [?rq] = replicate 34 ?rq"
    by (simp only: replicate_append_same)
  then show "requests (snd (?loop 0 None w)) = requests w @ replicate 34 ?rq"
    using run w'(2) by (simp add: w1_def)
  show "sleeps (snd (?loop 0 None w)) = sleeps w @ map (\<lambda>j. 2 ^ Suc j) [0..<33]"
    using run w'(3) by (simp add: w1_def)
qed


lemma long_outage_retried: "retried_refresh long_outage 0 34"
  by (simp add: retried_refresh_def long_outage_def timed_out_response_def response_at_def ok_def)

text \<open>
  C8 (as amended). \<^verbatim>\<open>refresh_pivot_table\<close> meets a failure that is not retryable after
  \<open>k\<close> retried ones. For \<open>k \<le> 33\<close> it sends one diagnostic GET before raising. If that
  read returns (a response that is not ok, or an ok one whose body decodes), the
  exception raised is the original refresh failure. If the request raises, or
  \<^verbatim>\<open>json()\<close> raises on an ok response, nothing catches it: that exception is what the
  caller gets. (A run cannot get beyond 34 retryable failures: for \<open>k > 33\<close> the
  thirty-fourth wait, \<open>2 ^ 34\<close> seconds, is refused by \<^verbatim>\<open>time.sleep\<close>, and the function
  raises \<^verbatim>\<open>OverflowError\<close> after 34 POST requests.)
\<close>

theorem diagnostic_read_outcomes:
  assumes "\<forall>i<k. \<exists>r'. response_at env (length (requests w) + i) = Some r' \<and> \<not> ok r'
              \<and> refresh_retryable r'"
    and "response_at env (length (requests w) + k) = Some r" and "\<not> ok r"
    and "\<not> refresh_retryable r" and "int k < max_retries"
  shows "(k \<le> 33 \<longrightarrow>
          (diagnostic_returns (snd (env (length (requests w) + Suc k)))
            \<longrightarrow> fst (refresh_pivot_table env site_id drive_id item_id sheet_name max_retries w)
                 = Inl (Exception (refresh_failed_msg (text r))))
          \<and> (\<forall>e. snd (env (length (requests w) + Suc k)) = Inl e
            \<longrightarrow> fst (refresh_pivot_table env site_id drive_id item_id sheet_name max_retries w)
                 = Inl e)
          \<and> (\<forall>dr. snd (env (length (requests w) + Suc k)) = Inr dr \<and> ok dr
                  \<and> json_body dr = None
            \<longrightarrow> fst (refresh_pivot_table env site_id drive_id item_id sheet_name max_retries w)
                 = Inl JSONDecodeError)
          \<and> requests (snd (refresh_pivot_table env site_id drive_id item_id sheet_name
                max_retries w))
             = requests w
               @ replicate (Suc k)
                   (Request POST (refresh_pivot_endpoint site_id drive_id item_id sheet_name)
                      None)
               @ [Request GET (pivot_tables_endpoint site_id drive_id item_id sheet_name) None])
       \<and> (33 < k \<longrightarrow>
          fst (refresh_pivot_table env site_id drive_id item_id sheet_name max_retries w)
            = Inl OverflowError
          \<and> requests (snd (refresh_pivot_table env site_id drive_id item_id sheet_name
                max_retries w))
             = requests w
               @ replicate 34
                   (Request POST (refresh_pivot_endpoint site_id drive_id item_id sheet_name)
                      None))"
proof (intro conjI impI)
  let ?post = "refresh_pivot_endpoint site_id drive_id item_id sheet_name"
  let ?get = "pivot_tables_endpoint site_id drive_id item_id sheet_name"
  let ?run = "refresh_pivot_table env site_id drive_id item_id sheet_name max_retries w"
  have retried: "retried_refresh env (length (requests w)) k"
    using assms(1) by (simp add: retried_refresh_def refresh_retryable_def)
  {
    assume k: "k \<le> 33"
    from refresh_loop_fatal [OF retried k assms(2-5), of ?post ?get]
    obtain w1 where w1: "requests w1 = requests w @ replicate (Suc k) (Request POST ?post None)"
      and run: "?run =
          (case diagnostic_read env ?get w1 of
             (Inl e, w2) \<Rightarrow> (Inl e, w2)
           | (Inr u, w2) \<Rightarrow> (Inl (Exception (refresh_failed_msg (text r))), w2))"
      unfolding refresh_pivot_table_def by blast
    have n1: "length (requests w1) = length (requests w) + Suc k" using w1 by simp
    obtain res w2 where d: "diagnostic_read env ?get w1 = (res, w2)" by fastforce
    show "fst ?run = Inl (Exception (refresh_failed_msg (text r)))"
      if "diagnostic_returns (snd (env (length (requests w) + Suc k)))"
    proof -
      from that n1 have "fst (diagnostic_read env ?get w1) = Inr ()"
        by (intro diagnostic_read_returns) simp
      with d run show ?thesis by simp
    qed
    show "\<forall>e. snd (env (length (requests w) + Suc k)) = Inl e \<longrightarrow> fst ?run = Inl e"
    proof (intro allI impI)
      fix e assume "snd (env (length (requests w) + Suc k)) = Inl e"
      with n1 have "fst (diagnostic_read env ?get w1) = Inl e"
        by (intro diagnostic_read_raises) simp
      with d run show "fst ?run = Inl e" by simp
    qed
    show "\<forall>dr. snd (env (length (requests w) + Suc k)) = Inr dr \<and> ok dr \<and> json_body dr = None
        \<longrightarrow> fst ?run = Inl JSONDecodeError"
    proof (intro allI impI)
      fix dr
      assume "snd (env (length (requests w) + Suc k)) = Inr dr \<and> ok dr \<and> json_body dr = None"
      with n1 have "fst (diagnostic_read env ?get w1) = Inl JSONDecodeError"
        by (intro diagnostic_read_undecodable [of env w1 dr]) simp_all
      with d run show "fst ?run = Inl JSONDecodeError" by simp
    qed
    show "requests (snd ?run)
        = requests w @ replicate (Suc k) (Request POST ?post None) @ [Request GET ?get None]"
      using run d diagnostic_read_appends [OF d] w1 by (auto split: sum.splits)
  }
  {
    assume k: "33 < k"
    show "fst ?run = Inl OverflowError"
      unfolding refresh_pivot_table_def
      using retried k assms(5) by (rule refresh_loop_overflow(1))
    show "requests (snd ?run) = requests w @ replicate 34 (Request POST ?post None)"
      unfolding refresh_pivot_table_def
      using retried k assms(5) by (rule refresh_loop_overflow(2))
  }
qed

theorem diagnostic_read_outcomes_witness:
  "fst (refresh_pivot_table not_found_session ''s'' ''d'' ''f'' ''Data'' 3 initial_world)
     = Inl (Exception ''Failed to refresh Pivot Table: itemNotFound'')
   \<and> length (requests (snd (refresh_pivot_table not_found_session ''s'' ''d'' ''f'' ''Data'' 3
        initial_world))) = 2
   \<and> fst (refresh_pivot_table not_found_then_dropped ''s'' ''d'' ''f'' ''Data'' 3 initial_world)
     = Inl (RequestException ''connection reset'')
   \<and> fst (refresh_pivot_table long_outage ''s'' ''d'' ''f'' ''Data'' 35 initial_world)
     = Inl OverflowError"
  using diagnostic_read_outcomes [of 0 not_found_session initial_world not_found_response 3
      "''s''" "''d''" "''f''" "''Data''"]
    diagnostic_read_outcomes [of 0 not_found_then_dropped initial_world not_found_response 3
      "''s''" "''d''" "''f''" "''Data''"]
    diagnostic_read_outcomes [of 34 long_outage initial_world not_found_response 35
      "''s''" "''d''" "''f''" "''Data''"]
  by (simp add: not_found_session_def not_found_then_dropped_def not_found_response_def
      long_outage_def timed_out_response_def
      initial_world_def response_at_def ok_def refresh_retryable_def diagnostic_returns_def
      refresh_failed_msg_def)

text \<open>
  The claim as stated fails: the refresh is answered by a 404, the diagnostic request
  raises, and the caller gets the diagnostic request's exception, not the refresh failure.
\<close>

theorem diagnostic_read_counterexample:
  "response_at not_found_then_dropped 0 = Some not_found_response
   \<and> \<not> ok not_found_response \<and> \<not> refresh_retryable not_found_response
   \<and> snd (not_found_then_dropped 1) = Inl (RequestException ''connection reset'')
   \<and> fst (refresh_pivot_table not_found_then_dropped ''s'' ''d'' ''f'' ''Data'' 3 initial_world)
     = Inl (RequestException ''connection reset'')"
  by (simp add: refresh_pivot_table_def refresh_loop.simps refresh_attempt_def
      diagnostic_read_def send_def sleep_def sleep_max_def not_found_then_dropped_def
      initial_world_def not_found_response_def response_at_def ok_def refresh_retryable_def)





section \<open>The poller\<close>

lemma try_lookup_eq:
  "try_lookup env endpoint w =
     (lookup_result (snd (env (length (requests w)))),
      w\<lparr>clock := clock w + int (latency_at env (length (requests w))),
        requests := requests w @ [Request GET endpoint None]\<rparr>)"
  by (simp add: try_lookup_def send_eq)

lemma wait_loop_expired:
  "\<not> clock w - start_time < timeout \<Longrightarrow>
   wait_loop env endpoint msg start_time timeout poll_interval w = Some (Inl (Exception msg), w)"
  by (subst wait_loop.simps) simp


lemma wait_loop_absent:
  assumes "clock w - start_time < timeout"
    and "lookup_result (snd (env (length (requests w)))) = None"
    and "0 \<le> poll_interval" and "poll_interval \<le> sleep_max"
  shows "wait_loop env endpoint msg start_time timeout poll_interval w =
     wait_loop env endpoint msg start_time timeout poll_interval
       (w\<lparr>clock := clock w + int (latency_at env (length (requests w))) + poll_interval,
          requests := requests w @ [Request GET endpoint None],
          sleeps := sleeps w @ [poll_interval]\<rparr>)"
proof -
  have "wait_loop env endpoint msg start_time timeout poll_interval w =
     (case try_lookup env endpoint w of
           (Some d, w1) \<Rightarrow> Some (Inr d, w1)
         | (None, w1) \<Rightarrow>
             (case sleep poll_interval w1 of
                (Inl e, w2) \<Rightarrow> Some (Inl e, w2)
              | (Inr u, w2) \<Rightarrow>
                  wait_loop env endpoint msg start_time timeout poll_interval w2))"
    using assms(1) by (subst wait_loop.simps) simp
  also have "\<dots> = wait_loop env endpoint msg start_time timeout poll_interval
       (snd (sleep poll_interval (snd (try_lookup env endpoint w))))"
    using assms(2-4) by (simp add: try_lookup_eq sleep_accepted)
  also have "snd (sleep poll_interval (snd (try_lookup env endpoint w))) =
       w\<lparr>clock := clock w + int (latency_at env (length (requests w))) + poll_interval,
          requests := requests w @ [Request GET endpoint None],
          sleeps := sleeps w @ [poll_interval]\<rparr>"
    using assms(3,4) by (simp add: try_lookup_eq sleep_accepted)
  finally show ?thesis .
qed



lemma wait_loop_overflow:
  assumes "clock w - start_time < timeout"
    and "lookup_result (snd (env (length (requests w)))) = None"
    and "sleep_max < poll_interval"
  shows "wait_loop env endpoint msg start_time timeout poll_interval w =
     Some (Inl OverflowError,
       w\<lparr>clock := clock w + int (latency_at env (length (requests w))),
         requests := requests w @ [Request GET endpoint None]\<rparr>)"
  using assms by (subst wait_loop.simps) (simp add: try_lookup_eq sleep_overflow)

lemma wait_loop_raises_only_after_timeout:
  "wait_loop env endpoint msg start_time timeout poll_interval w = Some res \<Longrightarrow>
   \<forall>m w'. res = (Inl (Exception m), w') \<longrightarrow> m = msg \<and> timeout \<le> clock w' - start_time"
proof (induction rule: wait_loop.raw_induct [rotated 1, consumes 1])
  case (1 loop env endpoint msg start_time timeout poll_interval w res)
  show ?case
  proof (cases "clock w - start_time < timeout")
    case False
    with 1(2) show ?thesis by auto
  next
    case True
    note body = 1(2) [simplified True if_True try_lookup_eq prod.case]
    show ?thesis
    proof (cases "lookup_result (snd (env (length (requests w))))")
      case (Some d)
      with body show ?thesis by auto
    next
      case None
      show ?thesis
      proof (cases "0 \<le> poll_interval \<and> poll_interval \<le> sleep_max")
        case False
        with body None show ?thesis by (auto simp: sleep_def split: if_splits)
      next
        case True
        with body None have "\<exists>w2. loop env endpoint msg start_time timeout poll_interval w2
            = Some res"
          by (auto simp: sleep_accepted)
        then show ?thesis using 1(1) by blast
      qed
    qed
  qed
qed

lemma wait_loop_timeout_from:
  assumes "\<forall>i\<ge>n. lookup_result (snd (env i)) = None" and "0 < poll_interval"
    and "poll_interval \<le> sleep_max"
  shows "n \<le> length (requests w) \<Longrightarrow>
         \<exists>w'. wait_loop env endpoint msg start_time timeout poll_interval w
             = Some (Inl (Exception msg), w')
           \<and> timeout \<le> clock w' - start_time"
proof (induction "nat (timeout - (clock w - start_time))" arbitrary: w rule: less_induct)
  case less
  show ?case
  proof (cases "clock w - start_time < timeout")
    case False
    then show ?thesis by (simp add: wait_loop_expired)
  next
    case True
    define w2 where "w2 = w\<lparr>clock := clock w + int (latency_at env (length (requests w)))
            + poll_interval,
          requests := requests w @ [Request GET endpoint None],
          sleeps := sleeps w @ [poll_interval]\<rparr>"
    have step: "wait_loop env endpoint msg start_time timeout poll_interval w =
      wait_loop env endpoint msg start_time timeout poll_interval w2"
      unfolding w2_def using True assms less.prems by (intro wait_loop_absent) simp_all
    have "nat (timeout - (clock w2 - start_time)) < nat (timeout - (clock w - start_time))"
      using True assms(2) by (simp add: w2_def)
    moreover have "n \<le> length (requests w2)" using less.prems by (simp add: w2_def)
    ultimately show ?thesis using less.hyps step by simp
  qed
qed




text \<open>
  C5. \<^verbatim>\<open>wait_for_file\<close> measures the elapsed time against the one \<open>start_time\<close> it
  recorded before the loop. Whenever it raises an \<^verbatim>\<open>Exception\<close>, that is the timeout
  error naming the file and the folder, and at least \<open>timeout\<close> seconds have passed
  since the call. And when no lookup ever finds the file and \<open>poll_interval\<close> is a
  positive length that \<^verbatim>\<open>time.sleep\<close> accepts, it does raise that error; with
  \<open>timeout = 5\<close>, after at least 5 seconds. For a longer \<open>poll_interval\<close> the one
  remaining case is stated too: \<^verbatim>\<open>time.sleep\<close> raises \<^verbatim>\<open>OverflowError\<close> after the first
  lookup, unless \<open>timeout \<le> 0\<close>, where the timeout error is raised at once.
\<close>

theorem wait_for_file_timeout:
  "(\<forall>m w'. wait_for_file env site_id drive_id folder_path file_name timeout poll_interval w
              = Some (Inl (Exception m), w')
        \<longrightarrow> m = ''Timeout waiting for file '' @ [CHR 0x27] @ file_name @ [CHR 0x27]
                  @ '' in '' @ [CHR 0x27] @ folder_path @ [CHR 0x27] @ ''.''
            \<and> timeout \<le> clock w' - clock w)
   \<and> ((\<forall>i. lookup_result (snd (env (length (requests w) + i))) = None) \<and> 0 < poll_interval
        \<and> poll_interval \<le> sleep_max
        \<longrightarrow> (\<exists>w'. wait_for_file env site_id drive_id folder_path file_name timeout
                      poll_interval w
                    = Some (Inl (Exception (''Timeout waiting for file '' @ [CHR 0x27]
                        @ file_name @ [CHR 0x27] @ '' in '' @ [CHR 0x27] @ folder_path
                        @ [CHR 0x27] @ ''.'')), w')
                  \<and> timeout \<le> clock w' - clock w))
   \<and> ((\<forall>i. lookup_result (snd (env (length (requests w) + i))) = None)
        \<and> sleep_max < poll_interval
        \<longrightarrow> (0 < timeout
              \<longrightarrow> (\<exists>w'. wait_for_file env site_id drive_id folder_path file_name timeout
                            poll_interval w = Some (Inl OverflowError, w')
                        \<and> requests w' = requests w
                            @ [Request GET
                                 (file_endpoint site_id drive_id folder_path file_name) None]
                        \<and> sleeps w' = sleeps w))
          \<and> (timeout \<le> 0
              \<longrightarrow> wait_for_file env site_id drive_id folder_path file_name timeout
                     poll_interval w
                   = Some (Inl (Exception (''Timeout waiting for file '' @ [CHR 0x27]
                        @ file_name @ [CHR 0x27] @ '' in '' @ [CHR 0x27] @ folder_path
                        @ [CHR 0x27] @ ''.'')), w)))"
proof (intro conjI allI impI)
  fix m w'
  assume "wait_for_file env site_id drive_id folder_path file_name timeout poll_interval w
              = Some (Inl (Exception m), w')"
  from wait_loop_raises_only_after_timeout [OF this [unfolded wait_for_file_def]]
  show "m = ''Timeout waiting for file '' @ [CHR 0x27] @ file_name @ [CHR 0x27]
                  @ '' in '' @ [CHR 0x27] @ folder_path @ [CHR 0x27] @ ''.''"
    and "timeout \<le> clock w' - clock w"
    by (simp_all add: timeout_msg_def quote_char_def)
next
  assume a: "(\<forall>i. lookup_result (snd (env (length (requests w) + i))) = None)
      \<and> 0 < poll_interval \<and> poll_interval \<le> sleep_max"
  have "\<forall>i\<ge>length (requests w). lookup_result (snd (env i)) = None"
  proof (intro allI impI)
    fix i assume "length (requests w) \<le> i"
    then have "i = length (requests w) + (i - length (requests w))" by simp
    with a show "lookup_result (snd (env i)) = None" by metis
  qed
  from wait_loop_timeout_from [OF this, of poll_interval w
      "file_endpoint site_id drive_id folder_path file_name"
      "timeout_msg file_name folder_path" "clock w" timeout] a
  show "\<exists>w'. wait_for_file env site_id drive_id folder_path file_name timeout poll_interval w
                    = Some (Inl (Exception (''Timeout waiting for file '' @ [CHR 0x27]
                        @ file_name @ [CHR 0x27] @ '' in '' @ [CHR 0x27] @ folder_path
                        @ [CHR 0x27] @ ''.'')), w')
                  \<and> timeout \<le> clock w' - clock w"
    by (simp add: wait_for_file_def timeout_msg_def quote_char_def)
next
  assume a: "(\<forall>i. lookup_result (snd (env (length (requests w) + i))) = None)
        \<and> sleep_max < poll_interval"
    and t: "0 < timeout"
  from a have "lookup_result (snd (env (length (requests w) + 0))) = None" by blast
  then have absent: "lookup_result (snd (env (length (requests w)))) = None" by simp
  from t have "clock w - clock w < timeout" by simp
  from wait_loop_overflow [where w = w and start_time = "clock w" and timeout = timeout
      and env = env and poll_interval = poll_interval
      and endpoint = "file_endpoint site_id drive_id folder_path file_name"
      and msg = "timeout_msg file_name folder_path"] this absent a
  show "\<exists>w'. wait_for_file env site_id drive_id folder_path file_name timeout
                            poll_interval w = Some (Inl OverflowError, w')
                        \<and> requests w' = requests w
                            @ [Request GET
                                 (file_endpoint site_id drive_id folder_path file_name) None]
                        \<and> sleeps w' = sleeps w"
    by (simp add: wait_for_file_def)
next
  assume "timeout \<le> 0"
  then have "\<not> clock w - clock w < timeout" by simp
  from wait_loop_expired [OF this]
  show "wait_for_file env site_id drive_id folder_path file_name timeout poll_interval w
                   = Some (Inl (Exception (''Timeout waiting for file '' @ [CHR 0x27]
                        @ file_name @ [CHR 0x27] @ '' in '' @ [CHR 0x27] @ folder_path
                        @ [CHR 0x27] @ ''.'')), w)"
    by (simp add: wait_for_file_def timeout_msg_def quote_char_def)
qed

theorem wait_for_file_timeout_witness:
  "(\<exists>w'. wait_for_file not_found_session ''s'' ''d'' ''in'' ''report.xlsx'' 5 3 initial_world
        = Some (Inl (Exception (''Timeout waiting for file '' @ [CHR 0x27] @ ''report.xlsx''
              @ [CHR 0x27] @ '' in '' @ [CHR 0x27] @ ''in'' @ [CHR 0x27] @ ''.'')), w')
      \<and> 5 \<le> clock w')
   \<and> (\<exists>w'. wait_for_file not_found_session ''s'' ''d'' ''in'' ''report.xlsx'' 5 9223372037
          initial_world = Some (Inl OverflowError, w')
      \<and> length (requests w') = 1 \<and> sleeps w' = [])"
proof -
  have a: "\<exists>w'. wait_for_file not_found_session ''s'' ''d'' ''in'' ''report.xlsx'' 5 3
        initial_world
        = Some (Inl (Exception (''Timeout waiting for file '' @ [CHR 0x27] @ ''report.xlsx''
              @ [CHR 0x27] @ '' in '' @ [CHR 0x27] @ ''in'' @ [CHR 0x27] @ ''.'')), w')
      \<and> 5 \<le> clock w'"
    using wait_for_file_timeout [of not_found_session "''s''" "''d''" "''in''"
        "''report.xlsx''" 5 3 initial_world]
    by (simp add: not_found_session_def not_found_response_def lookup_result_def ok_def
        initial_world_def sleep_max_def)
  have "\<exists>w'. wait_for_file not_found_session ''s'' ''d'' ''in'' ''report.xlsx'' 5 9223372037
          initial_world = Some (Inl OverflowError, w')
      \<and> requests w' = [Request GET (file_endpoint ''s'' ''d'' ''in'' ''report.xlsx'') None]
      \<and> sleeps w' = []"
    using wait_for_file_timeout [of not_found_session "''s''" "''d''" "''in''"
        "''report.xlsx''" 5 9223372037 initial_world]
    by (simp add: not_found_session_def not_found_response_def lookup_result_def ok_def
        initial_world_def sleep_max_def)
  then obtain w' where "wait_for_file not_found_session ''s'' ''d'' ''in'' ''report.xlsx'' 5
      9223372037 initial_world = Some (Inl OverflowError, w')"
    "requests w' = [Request GET (file_endpoint ''s'' ''d'' ''in'' ''report.xlsx'') None]"
    "sleeps w' = []" by blast
  then have "\<exists>w'. wait_for_file not_found_session ''s'' ''d'' ''in'' ''report.xlsx'' 5 9223372037
          initial_world = Some (Inl OverflowError, w')
      \<and> length (requests w') = 1 \<and> sleeps w' = []"
    by (intro exI [of _ w']) simp
  with a show ?thesis by blast
qed

section \<open>The chunk loop\<close>







end
